theory Spec2Isabelle
  imports Complex_Main "HOL-Library.Word" "HOL-Library.Product_Lexorder" "HOL-Library.Multiset"
begin

section \<open>Pixel values\<close>

text \<open>
  Every buffer of the engine holds C++ \<open>double\<close> values, the binary64 format of IEEE 754.
  A value is NaN (missing), one of the two infinities, or a finite number.  The finite doubles
  are the numbers \<open>m * 2^e\<close> with \<open>\<bar>m\<bar> < 2^53\<close> and \<open>- 1074 \<le> e \<le> 971\<close>.  The two zeros are
  one value: they differ only as divisors, and a zero divisor is the positive zero here.
  \<open>Fin r\<close> is a double when \<open>is_double r\<close>; the operations return doubles for all arguments.
\<close>

datatype double = NaN | NInf | Fin real | PInf

definition is_double :: "real \<Rightarrow> bool" where
  "is_double r \<longleftrightarrow> (\<exists>m e. r = of_int m * 2 powi e \<and> \<bar>m\<bar> < 2 ^ 53 \<and> - 1074 \<le> e \<and> e \<le> 971)"

definition isnan :: "double \<Rightarrow> bool" where
  "isnan d = (d = NaN)"

definition isfinite :: "double \<Rightarrow> bool" where
  "isfinite d = (case d of Fin _ \<Rightarrow> True | _ \<Rightarrow> False)"

fun dneg :: "double \<Rightarrow> double" where
  "dneg NaN = NaN"
| "dneg NInf = PInf"
| "dneg PInf = NInf"
| "dneg (Fin a) = Fin (- a)"

text \<open>
  The result of an operation is the exact result rounded to the nearest double, a tie going to
  the even significand, and an infinity when the rounded magnitude reaches \<open>2^1024\<close>.
  \<open>round_even\<close> rounds a quotient to the nearest integer, \<open>ulp_exp r\<close> is the exponent of the
  spacing of the doubles around \<open>r > 0\<close>, which is \<open>2^(- 1074)\<close> below \<open>2^(- 1022)\<close>, and
  \<open>round_pos\<close> rounds a positive number.  Every operation of the source rounds once: no
  extended precision and no fused multiplication and addition.
\<close>

definition round_even :: "real \<Rightarrow> int" where
  "round_even q =
     (let f = \<lfloor>q\<rfloor> in
      if q - of_int f < 1 / 2 then f
      else if 1 / 2 < q - of_int f then f + 1
      else if even f then f else f + 1)"

definition ulp_exp :: "real \<Rightarrow> int" where
  "ulp_exp r = max (\<lfloor>log 2 r\<rfloor> - 52) (- 1074)"

definition round_pos :: "real \<Rightarrow> double" where
  "round_pos r =
     (let e = ulp_exp r;
          v = of_int (round_even (r / 2 powi e)) * 2 powi e
      in if 2 ^ 1024 \<le> v then PInf else Fin v)"

definition to_double :: "real \<Rightarrow> double" where
  "to_double r = (if r = 0 then Fin 0 else if 0 < r then round_pos r else dneg (round_pos (- r)))"

fun dadd :: "double \<Rightarrow> double \<Rightarrow> double" where
  "dadd (Fin a) (Fin b) = to_double (a + b)"
| "dadd NaN _ = NaN"
| "dadd _ NaN = NaN"
| "dadd PInf NInf = NaN"
| "dadd NInf PInf = NaN"
| "dadd PInf _ = PInf"
| "dadd NInf _ = NInf"
| "dadd _ PInf = PInf"
| "dadd _ NInf = NInf"

definition dsub :: "double \<Rightarrow> double \<Rightarrow> double" where
  "dsub a b = dadd a (dneg b)"

text \<open>An infinity times a finite value: the sign of the product, NaN for zero.\<close>

definition inf_times :: "bool \<Rightarrow> real \<Rightarrow> double" where
  "inf_times pos a = (if a = 0 then NaN else if (0 < a) = pos then PInf else NInf)"

fun dmul :: "double \<Rightarrow> double \<Rightarrow> double" where
  "dmul (Fin a) (Fin b) = to_double (a * b)"
| "dmul NaN _ = NaN"
| "dmul _ NaN = NaN"
| "dmul PInf PInf = PInf"
| "dmul NInf NInf = PInf"
| "dmul PInf NInf = NInf"
| "dmul NInf PInf = NInf"
| "dmul PInf (Fin b) = inf_times True b"
| "dmul NInf (Fin b) = inf_times False b"
| "dmul (Fin a) PInf = inf_times True a"
| "dmul (Fin a) NInf = inf_times False a"

text \<open>Division; a zero divisor is the positive zero.\<close>

fun ddiv :: "double \<Rightarrow> double \<Rightarrow> double" where
  "ddiv (Fin a) (Fin b) =
     (if b = 0 then (if a = 0 then NaN else if 0 < a then PInf else NInf) else to_double (a / b))"
| "ddiv NaN _ = NaN"
| "ddiv _ NaN = NaN"
| "ddiv (Fin a) PInf = Fin 0"
| "ddiv (Fin a) NInf = Fin 0"
| "ddiv PInf (Fin b) = (if 0 \<le> b then PInf else NInf)"
| "ddiv NInf (Fin b) = (if 0 \<le> b then NInf else PInf)"
| "ddiv PInf _ = NaN"
| "ddiv NInf _ = NaN"

text \<open>\<open>sqrt\<close>, which IEEE 754 requires to be correctly rounded.\<close>

fun dsqrt :: "double \<Rightarrow> double" where
  "dsqrt (Fin a) = (if a < 0 then NaN else to_double (sqrt a))"
| "dsqrt PInf = PInf"
| "dsqrt _ = NaN"

text \<open>The comparison \<open><\<close> of doubles: false as soon as one side is NaN.\<close>

fun dless :: "double \<Rightarrow> double \<Rightarrow> bool" where
  "dless (Fin a) (Fin b) = (a < b)"
| "dless NaN _ = False"
| "dless _ NaN = False"
| "dless NInf NInf = False"
| "dless NInf _ = True"
| "dless _ NInf = False"
| "dless PInf _ = False"
| "dless _ PInf = True"

text \<open>\<open>std::min(a, b)\<close> is \<open>(b < a) ? b : a\<close> and \<open>std::max(a, b)\<close> is \<open>(a < b) ? b : a\<close>.\<close>

definition dmin :: "double \<Rightarrow> double \<Rightarrow> double" where
  "dmin a b = (if dless b a then b else a)"

definition dmax :: "double \<Rightarrow> double \<Rightarrow> double" where
  "dmax a b = (if dless a b then b else a)"

text \<open>Conversion of an unsigned counter to double, which is exact below \<open>2^53\<close>.\<close>

definition of_u16 :: "16 word \<Rightarrow> double" where
  "of_u16 c = Fin (real (unat c))"

definition of_u32 :: "32 word \<Rightarrow> double" where
  "of_u32 c = Fin (real (unat c))"

section \<open>Buffers\<close>

text \<open>
  A buffer is the list of its cells.  Sizes and indices are \<open>uint32_t\<close> in the source and
  natural numbers here; the index products of one buffer are taken not to wrap.  Reading or
  writing past the end of a buffer is undefined in C++: here such a read yields NaN and such a
  write is dropped.
\<close>

definition rd :: "double list \<Rightarrow> nat \<Rightarrow> double" where
  "rd xs i = (if i < length xs then xs ! i else NaN)"

definition wr :: "double list \<Rightarrow> nat \<Rightarrow> double \<Rightarrow> double list" where
  "wr xs i v = xs[i := v]"

text \<open>\<open>memcpy(dst + off, src, n * sizeof(double))\<close>.\<close>

definition memcpy :: "double list \<Rightarrow> nat \<Rightarrow> double list \<Rightarrow> nat \<Rightarrow> double list" where
  "memcpy dst off src n = fold (\<lambda>i d. wr d (off + i) (rd src i)) [0..<n] dst"

section \<open>Temporal aggregation in the image-collection source (chunking.cpp)\<close>

text \<open>
  \<open>aggregation_state_mean\<close>: \<open>_img_count[b][t]\<close> counts the images seen for a band and time slot,
  \<open>_val_count[b][t]\<close> is a per-pixel counter array.  The two-level hash maps are one map on the
  pair of keys; the outer key type is \<open>uint16_t\<close>, the inner one \<open>uint32_t\<close>.
\<close>

record aggregation_state_mean =
  img_count :: "16 word \<times> 32 word \<rightharpoonup> 16 word"
  val_count :: "16 word \<times> 32 word \<rightharpoonup> 16 word list"

definition aggregation_state_mean_new :: aggregation_state_mean where
  "aggregation_state_mean_new = \<lparr>img_count = Map.empty, val_count = Map.empty\<rparr>"

text \<open>The body of the pixel loop of \<open>aggregation_state_mean::update\<close> (lines 63-70).\<close>

definition mean_update_pixel ::
  "nat \<Rightarrow> double list \<Rightarrow> nat \<Rightarrow> double list \<times> 16 word list \<Rightarrow> double list \<times> 16 word list" where
  "mean_update_pixel off img i s =
     (case s of (chunk, vc) \<Rightarrow>
        if isnan (rd img i) then (chunk, vc)
        else if isnan (rd chunk (off + i)) then (wr chunk (off + i) (rd img i), vc)
        else
          let sum = dadd (dmul (rd chunk (off + i)) (of_u16 (vc ! i))) (rd chunk (off + i));
              vc' = vc[i := vc ! i + 1]
          in (wr chunk (off + i) (ddiv sum (of_u16 (vc' ! i))), vc'))"

text \<open>
  \<open>update(chunk_buf, img_buf, b, t)\<close>, where \<open>chunk_buf\<close> points \<open>off\<close> cells into the chunk
  buffer and a plane has \<open>n = _size_btyx[2] * _size_btyx[3]\<close> pixels.  The first image of a
  (b, t) is copied; a later one goes through the pixel loop.
\<close>

definition aggregation_state_mean_update ::
  "nat \<Rightarrow> aggregation_state_mean \<Rightarrow> double list \<Rightarrow> nat \<Rightarrow> double list \<Rightarrow> 32 word \<Rightarrow> 32 word
     \<Rightarrow> double list \<times> aggregation_state_mean" where
  "aggregation_state_mean_update n st chunk off img b t =
     (let k = (ucast b :: 16 word, t) in
      case img_count st k of
        None \<Rightarrow> (memcpy chunk off img n, st\<lparr>img_count := (img_count st)(k \<mapsto> 1)\<rparr>)
      | Some c \<Rightarrow>
          let ic = c + 1;
              vc0 = (case val_count st k of None \<Rightarrow> replicate n ic | Some v \<Rightarrow> v);
              (chunk', vc') = fold (mean_update_pixel off img) [0..<n] (chunk, vc0)
          in (chunk', st\<lparr>img_count := (img_count st)(k \<mapsto> ic),
                          val_count := (val_count st)(k \<mapsto> vc')\<rparr>))"

text \<open>\<open>aggregation_state_min::update\<close> and \<open>aggregation_state_max::update\<close>.\<close>

definition minmax_update_pixel ::
  "(double \<Rightarrow> double \<Rightarrow> double) \<Rightarrow> nat \<Rightarrow> double list \<Rightarrow> nat \<Rightarrow> double list \<Rightarrow> double list" where
  "minmax_update_pixel f off img i chunk =
     (if isnan (rd img i) then chunk
      else if isnan (rd chunk (off + i)) then wr chunk (off + i) (rd img i)
      else wr chunk (off + i) (f (rd chunk (off + i)) (rd img i)))"

definition aggregation_state_min_update :: "nat \<Rightarrow> double list \<Rightarrow> nat \<Rightarrow> double list \<Rightarrow> double list" where
  "aggregation_state_min_update n chunk off img = fold (minmax_update_pixel dmin off img) [0..<n] chunk"

definition aggregation_state_max_update :: "nat \<Rightarrow> double list \<Rightarrow> nat \<Rightarrow> double list \<Rightarrow> double list" where
  "aggregation_state_max_update n chunk off img = fold (minmax_update_pixel dmax off img) [0..<n] chunk"

text \<open>\<open>aggregation_state_none::update\<close>: the image replaces the plane.\<close>

definition aggregation_state_none_update :: "nat \<Rightarrow> double list \<Rightarrow> nat \<Rightarrow> double list \<Rightarrow> double list" where
  "aggregation_state_none_update n chunk off img = memcpy chunk off img n"

text \<open>
  The scenario of two images in the same (b, t): the chunk plane comes zeroed from \<open>calloc\<close>,
  the first image has the pixels 1 and NaN, the second 3 and 5.
\<close>

definition two_images_mean :: "double list" where
  "two_images_mean =
     (let (c1, s1) = aggregation_state_mean_update 2 aggregation_state_mean_new
                       [Fin 0, Fin 0] 0 [Fin 1, NaN] 0 0;
          (c2, s2) = aggregation_state_mean_update 2 s1 c1 0 [Fin 3, Fin 5] 0 0
      in c2)"


section \<open>Chunk buffers\<close>

text \<open>
  \<open>chunk_data\<close>: the size (bands, time, y, x) and the band-major buffer.  The default
  constructed chunk is empty: size zero and a null buffer, which is the empty list here.
\<close>

record chunk_data =
  size_btyx :: "nat \<times> nat \<times> nat \<times> nat"
  buf :: "double list"

definition empty_chunk :: chunk_data where
  "empty_chunk = \<lparr>size_btyx = (0, 0, 0, 0), buf = []\<rparr>"

definition sz_b :: "chunk_data \<Rightarrow> nat" where
  "sz_b c = (case size_btyx c of (b, t, y, x) \<Rightarrow> b)"

definition sz_t :: "chunk_data \<Rightarrow> nat" where
  "sz_t c = (case size_btyx c of (b, t, y, x) \<Rightarrow> t)"

definition sz_y :: "chunk_data \<Rightarrow> nat" where
  "sz_y c = (case size_btyx c of (b, t, y, x) \<Rightarrow> y)"

definition sz_x :: "chunk_data \<Rightarrow> nat" where
  "sz_x c = (case size_btyx c of (b, t, y, x) \<Rightarrow> x)"

section \<open>Reducers over space (reduce_space.cpp)\<close>

text \<open>
  Every \<open>combine\<close> iterates in the same way: for each time slot \<open>it\<close> of the input chunk \<open>b\<close> and
  each pixel \<open>ixy\<close> of the slot, read \<open>v\<close> from the input band and run the body when
  \<open>!std::isnan(v)\<close>.
\<close>

definition in_value :: "chunk_data \<Rightarrow> nat \<Rightarrow> nat \<Rightarrow> nat \<Rightarrow> double" where
  "in_value b band_in it ixy =
     rd (buf b) (band_in * sz_t b * sz_y b * sz_x b + it * sz_y b * sz_x b + ixy)"

definition for_each_value :: "chunk_data \<Rightarrow> nat \<Rightarrow> (nat \<Rightarrow> double \<Rightarrow> 's \<Rightarrow> 's) \<Rightarrow> 's \<Rightarrow> 's" where
  "for_each_value b band_in body s =
     fold (\<lambda>it. fold (\<lambda>ixy s. let v = in_value b band_in it ixy
                                in if \<not> isnan v then body it v s else s)
                      [0..<sz_y b * sz_x b])
          [0..<sz_t b] s"

text \<open>
  The cell of the result chunk \<open>a\<close> that \<open>combine\<close> updates for slot \<open>it\<close>, and the cell that
  \<open>init\<close> and \<open>finalize\<close> address; the two agree on a result chunk, whose y and x sizes are 1.
\<close>

definition out_cell :: "chunk_data \<Rightarrow> nat \<Rightarrow> nat \<Rightarrow> nat" where
  "out_cell a band_out it = band_out * sz_t a * sz_y a * sz_x a + it"

definition fin_cell :: "chunk_data \<Rightarrow> nat \<Rightarrow> nat \<Rightarrow> nat" where
  "fin_cell a band_out it = band_out * sz_t a + it"

text \<open>The loop of the \<open>init\<close> functions that sets every slot of the output band to \<open>v\<close>.\<close>

definition init_band :: "chunk_data \<Rightarrow> nat \<Rightarrow> double \<Rightarrow> chunk_data" where
  "init_band a band_out v =
     a\<lparr>buf := fold (\<lambda>it d. wr d (fin_cell a band_out it) v) [0..<sz_t a] (buf a)\<rparr>"

text \<open>The fields \<open>_band_idx_in\<close> and \<open>_band_idx_out\<close> that every reducer has.\<close>

record reducer_singleband_s =
  band_idx_in :: nat
  band_idx_out :: nat

subsection \<open>sum, prod, count, min, max\<close>

definition sum_init :: "chunk_data \<Rightarrow> nat \<Rightarrow> nat \<Rightarrow> chunk_data \<times> reducer_singleband_s" where
  "sum_init a bi bo = (init_band a bo (Fin 0), \<lparr>band_idx_in = bi, band_idx_out = bo\<rparr>)"

definition sum_combine :: "reducer_singleband_s \<Rightarrow> chunk_data \<Rightarrow> chunk_data \<Rightarrow> chunk_data" where
  "sum_combine r a b =
     a\<lparr>buf := for_each_value b (band_idx_in r)
        (\<lambda>it v d. wr d (out_cell a (band_idx_out r) it) (dadd (rd d (out_cell a (band_idx_out r) it)) v))
        (buf a)\<rparr>"

definition prod_init :: "chunk_data \<Rightarrow> nat \<Rightarrow> nat \<Rightarrow> chunk_data \<times> reducer_singleband_s" where
  "prod_init a bi bo = (init_band a bo (Fin 1), \<lparr>band_idx_in = bi, band_idx_out = bo\<rparr>)"

definition prod_combine :: "reducer_singleband_s \<Rightarrow> chunk_data \<Rightarrow> chunk_data \<Rightarrow> chunk_data" where
  "prod_combine r a b =
     a\<lparr>buf := for_each_value b (band_idx_in r)
        (\<lambda>it v d. wr d (out_cell a (band_idx_out r) it) (dmul (rd d (out_cell a (band_idx_out r) it)) v))
        (buf a)\<rparr>"

definition count_init :: "chunk_data \<Rightarrow> nat \<Rightarrow> nat \<Rightarrow> chunk_data \<times> reducer_singleband_s" where
  "count_init a bi bo = (init_band a bo (Fin 0), \<lparr>band_idx_in = bi, band_idx_out = bo\<rparr>)"

definition count_combine :: "reducer_singleband_s \<Rightarrow> chunk_data \<Rightarrow> chunk_data \<Rightarrow> chunk_data" where
  "count_combine r a b =
     a\<lparr>buf := for_each_value b (band_idx_in r)
        (\<lambda>it v d. wr d (out_cell a (band_idx_out r) it) (dadd (rd d (out_cell a (band_idx_out r) it)) (Fin 1)))
        (buf a)\<rparr>"

definition min_init :: "chunk_data \<Rightarrow> nat \<Rightarrow> nat \<Rightarrow> chunk_data \<times> reducer_singleband_s" where
  "min_init a bi bo = (init_band a bo NaN, \<lparr>band_idx_in = bi, band_idx_out = bo\<rparr>)"

definition min_combine :: "reducer_singleband_s \<Rightarrow> chunk_data \<Rightarrow> chunk_data \<Rightarrow> chunk_data" where
  "min_combine r a b =
     a\<lparr>buf := for_each_value b (band_idx_in r)
        (\<lambda>it v d. let w = out_cell a (band_idx_out r) it
                  in if isnan (rd d w) then wr d w v else wr d w (dmin (rd d w) v))
        (buf a)\<rparr>"

definition max_init :: "chunk_data \<Rightarrow> nat \<Rightarrow> nat \<Rightarrow> chunk_data \<times> reducer_singleband_s" where
  "max_init a bi bo = (init_band a bo NaN, \<lparr>band_idx_in = bi, band_idx_out = bo\<rparr>)"

definition max_combine :: "reducer_singleband_s \<Rightarrow> chunk_data \<Rightarrow> chunk_data \<Rightarrow> chunk_data" where
  "max_combine r a b =
     a\<lparr>buf := for_each_value b (band_idx_in r)
        (\<lambda>it v d. let w = out_cell a (band_idx_out r) it
                  in if isnan (rd d w) then wr d w v else wr d w (dmax (rd d w) v))
        (buf a)\<rparr>"

subsection \<open>mean\<close>

text \<open>\<open>_count\<close> is an array of \<open>uint32_t\<close>, one counter per time slot of the result.\<close>

record mean_reducer_singleband_s = reducer_singleband_s +
  mean_count :: "32 word list"

definition rdc :: "32 word list \<Rightarrow> nat \<Rightarrow> 32 word" where
  "rdc c i = (if i < length c then c ! i else 0)"

definition mean_init :: "chunk_data \<Rightarrow> nat \<Rightarrow> nat \<Rightarrow> chunk_data \<times> mean_reducer_singleband_s" where
  "mean_init a bi bo =
     (init_band a bo (Fin 0),
      \<lparr>band_idx_in = bi, band_idx_out = bo, mean_count = replicate (sz_t a) 0\<rparr>)"

definition mean_combine ::
  "mean_reducer_singleband_s \<Rightarrow> chunk_data \<Rightarrow> chunk_data \<Rightarrow> chunk_data \<times> mean_reducer_singleband_s" where
  "mean_combine r a b =
     (case for_each_value b (band_idx_in r)
        (\<lambda>it v (d, c). (wr d (out_cell a (band_idx_out r) it) (dadd (rd d (out_cell a (band_idx_out r) it)) v),
                         c[it := rdc c it + 1]))
        (buf a, mean_count r)
      of (d, c) \<Rightarrow> (a\<lparr>buf := d\<rparr>, r\<lparr>mean_count := c\<rparr>))"

definition mean_finalize :: "mean_reducer_singleband_s \<Rightarrow> chunk_data \<Rightarrow> chunk_data" where
  "mean_finalize r a =
     a\<lparr>buf := fold (\<lambda>it d. wr d (fin_cell a (band_idx_out r) it)
                        (if 0 < rdc (mean_count r) it
                         then ddiv (rd d (fin_cell a (band_idx_out r) it)) (of_u32 (rdc (mean_count r) it))
                         else NaN))
                  [0..<sz_t a] (buf a)\<rparr>"

subsection \<open>median\<close>

record median_reducer_singleband_s = reducer_singleband_s +
  m_buckets :: "double list list"

text \<open>
  \<open>std::sort\<close> on a bucket.  A bucket holds no NaN, so \<open><\<close> orders it totally; the key embeds
  this order (with NaN last) into a linear order.
\<close>

fun dkey :: "double \<Rightarrow> nat \<times> real" where
  "dkey NInf = (0, 0)"
| "dkey (Fin a) = (1, a)"
| "dkey PInf = (2, 0)"
| "dkey NaN = (3, 0)"

definition std_sort :: "double list \<Rightarrow> double list" where
  "std_sort xs = sort_key dkey xs"

definition median_init :: "chunk_data \<Rightarrow> nat \<Rightarrow> nat \<Rightarrow> chunk_data \<times> median_reducer_singleband_s" where
  "median_init a bi bo =
     (a, \<lparr>band_idx_in = bi, band_idx_out = bo, m_buckets = replicate (sz_t a) []\<rparr>)"

definition median_combine ::
  "median_reducer_singleband_s \<Rightarrow> chunk_data \<Rightarrow> chunk_data \<Rightarrow> chunk_data \<times> median_reducer_singleband_s" where
  "median_combine r a b =
     (a, r\<lparr>m_buckets := for_each_value b (band_idx_in r)
                           (\<lambda>it v m. if it < length m then m[it := m ! it @ [v]] else m)
                           (m_buckets r)\<rparr>)"

definition median_of_sorted :: "double list \<Rightarrow> double" where
  "median_of_sorted list =
     (if length list = 0 then NaN
      else if length list mod 2 = 1 then list ! (length list div 2)
      else ddiv (dadd (list ! (length list div 2)) (list ! (length list div 2 - 1))) (Fin 2))"

definition median_finalize :: "median_reducer_singleband_s \<Rightarrow> chunk_data \<Rightarrow> chunk_data" where
  "median_finalize r a =
     a\<lparr>buf := fold (\<lambda>it d. wr d (fin_cell a (band_idx_out r) it)
                        (median_of_sorted (std_sort (if it < length (m_buckets r) then m_buckets r ! it else []))))
                  [0..<sz_t a] (buf a)\<rparr>"

subsection \<open>var and sd (Welford)\<close>

record var_reducer_singleband_s = reducer_singleband_s +
  var_count :: "32 word list"
  var_mean :: "double list"

definition var_init :: "chunk_data \<Rightarrow> nat \<Rightarrow> nat \<Rightarrow> chunk_data \<times> var_reducer_singleband_s" where
  "var_init a bi bo =
     (init_band a bo (Fin 0),
      \<lparr>band_idx_in = bi, band_idx_out = bo,
       var_count = replicate (sz_t a) 0, var_mean = replicate (sz_t a) (Fin 0)\<rparr>)"

text \<open>The body of the loop of \<open>var_reducer_singleband_s::combine\<close> (lines 301-306).\<close>

definition var_body ::
  "nat \<Rightarrow> nat \<Rightarrow> double \<Rightarrow> double list \<times> 32 word list \<times> double list
     \<Rightarrow> double list \<times> 32 word list \<times> double list" where
  "var_body w it v s =
     (case s of (d, c, m) \<Rightarrow>
        let count = rdc c it + 1;
            delta = dsub v (rd m it);
            mean = dadd (rd m it) (ddiv delta (of_u32 count))
        in (wr d w (dadd (rd d w) (dmul delta (dsub v mean))), c[it := count], m[it := mean]))"

definition var_combine ::
  "var_reducer_singleband_s \<Rightarrow> chunk_data \<Rightarrow> chunk_data \<Rightarrow> chunk_data \<times> var_reducer_singleband_s" where
  "var_combine r a b =
     (case for_each_value b (band_idx_in r)
        (\<lambda>it. var_body (out_cell a (band_idx_out r) it) it)
        (buf a, var_count r, var_mean r)
      of (d, c, m) \<Rightarrow> (a\<lparr>buf := d\<rparr>, r\<lparr>var_count := c, var_mean := m\<rparr>))"

definition var_finalize :: "var_reducer_singleband_s \<Rightarrow> chunk_data \<Rightarrow> chunk_data" where
  "var_finalize r a =
     a\<lparr>buf := fold (\<lambda>it d. wr d (fin_cell a (band_idx_out r) it)
                        (if 1 < rdc (var_count r) it
                         then ddiv (rd d (fin_cell a (band_idx_out r) it)) (of_u32 (rdc (var_count r) it - 1))
                         else NaN))
                  [0..<sz_t a] (buf a)\<rparr>"

definition sd_finalize :: "var_reducer_singleband_s \<Rightarrow> chunk_data \<Rightarrow> chunk_data" where
  "sd_finalize r a =
     a\<lparr>buf := fold (\<lambda>it d. wr d (fin_cell a (band_idx_out r) it)
                        (if 1 < rdc (var_count r) it
                         then dsqrt (ddiv (rd d (fin_cell a (band_idx_out r) it)) (of_u32 (rdc (var_count r) it - 1)))
                         else NaN))
                  [0..<sz_t a] (buf a)\<rparr>"

subsection \<open>One reducer over a sequence of input chunks\<close>

text \<open>
  \<open>reduce_space_cube::read_chunk\<close> calls \<open>init\<close> on the result chunk, \<open>combine\<close> once for every
  input chunk, in order, and \<open>finalize\<close> at the end.  These are the three calls for a single
  reducer.
\<close>

definition sum_run :: "chunk_data \<Rightarrow> nat \<Rightarrow> nat \<Rightarrow> chunk_data list \<Rightarrow> chunk_data" where
  "sum_run a bi bo chunks =
     (case sum_init a bi bo of (a0, r) \<Rightarrow> fold (\<lambda>b a. sum_combine r a b) chunks a0)"

definition count_run :: "chunk_data \<Rightarrow> nat \<Rightarrow> nat \<Rightarrow> chunk_data list \<Rightarrow> chunk_data" where
  "count_run a bi bo chunks =
     (case count_init a bi bo of (a0, r) \<Rightarrow> fold (\<lambda>b a. count_combine r a b) chunks a0)"

definition mean_run :: "chunk_data \<Rightarrow> nat \<Rightarrow> nat \<Rightarrow> chunk_data list \<Rightarrow> chunk_data" where
  "mean_run a bi bo chunks =
     (case fold (\<lambda>b (a, r). mean_combine r a b) chunks (mean_init a bi bo)
      of (a1, r1) \<Rightarrow> mean_finalize r1 a1)"

definition median_run :: "chunk_data \<Rightarrow> nat \<Rightarrow> nat \<Rightarrow> chunk_data list \<Rightarrow> chunk_data" where
  "median_run a bi bo chunks =
     (case fold (\<lambda>b (a, r). median_combine r a b) chunks (median_init a bi bo)
      of (a1, r1) \<Rightarrow> median_finalize r1 a1)"

definition var_run :: "chunk_data \<Rightarrow> nat \<Rightarrow> nat \<Rightarrow> chunk_data list \<Rightarrow> chunk_data" where
  "var_run a bi bo chunks =
     (case fold (\<lambda>b (a, r). var_combine r a b) chunks (var_init a bi bo)
      of (a1, r1) \<Rightarrow> var_finalize r1 a1)"

definition sd_run :: "chunk_data \<Rightarrow> nat \<Rightarrow> nat \<Rightarrow> chunk_data list \<Rightarrow> chunk_data" where
  "sd_run a bi bo chunks =
     (case fold (\<lambda>b (a, r). var_combine r a b) chunks (var_init a bi bo)
      of (a1, r1) \<Rightarrow> sd_finalize r1 a1)"

text \<open>
  The values that \<open>combine\<close> passes to the body for time slot \<open>it\<close> of the input
  band: those of the slot that are not NaN, in pixel order, chunk after chunk.
\<close>

definition slot_values :: "chunk_data \<Rightarrow> nat \<Rightarrow> nat \<Rightarrow> double list" where
  "slot_values b band_in it =
     (if it < sz_t b
      then filter (\<lambda>v. \<not> isnan v) (map (in_value b band_in it) [0..<sz_y b * sz_x b])
      else [])"

definition all_slot_values :: "chunk_data list \<Rightarrow> nat \<Rightarrow> nat \<Rightarrow> double list" where
  "all_slot_values chunks band_in it = concat (map (\<lambda>b. slot_values b band_in it) chunks)"

text \<open>The result of a run for one time slot.\<close>

definition result_cell :: "chunk_data \<Rightarrow> nat \<Rightarrow> nat \<Rightarrow> double" where
  "result_cell a band_out it = rd (buf a) (fin_cell a band_out it)"

text \<open>
  What one value does to the state of its slot: the accumulator cell and the counter of the mean
  reducer; the accumulator cell, the counter and the running mean of the var and sd reducers.
\<close>

definition mean_step :: "double \<Rightarrow> double \<times> 32 word \<Rightarrow> double \<times> 32 word" where
  "mean_step v s = (case s of (x, n) \<Rightarrow> (dadd x v, n + 1))"

definition var_step :: "double \<Rightarrow> double \<times> 32 word \<times> double \<Rightarrow> double \<times> 32 word \<times> double" where
  "var_step v s =
     (case s of (x, n, mu) \<Rightarrow>
        let count = n + 1;
            delta = dsub v mu;
            mean = dadd mu (ddiv delta (of_u32 count))
        in (dadd x (dmul delta (dsub v mean)), count, mean))"

text \<open>What \<open>finalize\<close> of the var and of the sd reducer writes for a slot in that state.\<close>

definition var_result :: "double \<times> 32 word \<times> double \<Rightarrow> double" where
  "var_result s = (case s of (x, n, mu) \<Rightarrow> if 1 < n then ddiv x (of_u32 (n - 1)) else NaN)"

definition sd_result :: "double \<times> 32 word \<times> double \<Rightarrow> double" where
  "sd_result s = (case s of (x, n, mu) \<Rightarrow> if 1 < n then dsqrt (ddiv x (of_u32 (n - 1))) else NaN)"

text \<open>
  Inputs of the examples below.  \<open>out_one\<close> is the result chunk as \<open>read_chunk\<close> allocates it for
  one reducer and one time slot: filled with NaN.  \<open>series_chunk\<close> holds the values 1, 2, 3 and
  NaN in one slot.  \<open>ones_chunk\<close> is a chunk of 1024 by 1024 pixels, all 1, and \<open>ones_chunks\<close> are
  4096 of them: \<open>2^32\<close> pixels for the slot.  \<open>inf_chunk\<close> holds a single pixel, plus infinity.
  \<open>odd_chunk\<close> holds 1, 3, 5 and NaN, \<open>pair_chunk\<close> holds 1 and 3, \<open>mixed_chunk\<close> holds
  1, 3 and plus infinity, and \<open>huge_chunk\<close> holds \<open>2^1023\<close> and \<open>- 2^1023\<close>, two doubles
  near the largest one.
\<close>

definition out_one :: chunk_data where
  "out_one = \<lparr>size_btyx = (1, 1, 1, 1), buf = [NaN]\<rparr>"

definition series_chunk :: chunk_data where
  "series_chunk = \<lparr>size_btyx = (1, 1, 2, 2), buf = [Fin 1, Fin 2, Fin 3, NaN]\<rparr>"

definition ones_chunk :: chunk_data where
  "ones_chunk = \<lparr>size_btyx = (1, 1, 1024, 1024), buf = replicate (1024 * 1024) (Fin 1)\<rparr>"

definition ones_chunks :: "chunk_data list" where
  "ones_chunks = replicate 4096 ones_chunk"

definition inf_chunk :: chunk_data where
  "inf_chunk = \<lparr>size_btyx = (1, 1, 1, 1), buf = [PInf]\<rparr>"

definition odd_chunk :: chunk_data where
  "odd_chunk = \<lparr>size_btyx = (1, 1, 2, 2), buf = [Fin 1, Fin 3, Fin 5, NaN]\<rparr>"

definition pair_chunk :: chunk_data where
  "pair_chunk = \<lparr>size_btyx = (1, 1, 1, 2), buf = [Fin 1, Fin 3]\<rparr>"

definition mixed_chunk :: chunk_data where
  "mixed_chunk = \<lparr>size_btyx = (1, 1, 1, 3), buf = [Fin 1, Fin 3, PInf]\<rparr>"

definition huge_chunk :: chunk_data where
  "huge_chunk = \<lparr>size_btyx = (1, 1, 1, 2), buf = [Fin (2 ^ 1023), Fin (- (2 ^ 1023))]\<rparr>"

section \<open>Cubes\<close>

text \<open>What the code throws: a \<open>std::string\<close>, the \<open>std::bad_function_call\<close> of an empty
  \<open>std::function\<close>, a type error of the JSON library, or a failed \<open>assert\<close>.\<close>

datatype error = Thrown string | Bad_function_call | Json_type_error | Assertion_failed

datatype datetime_unit = Second | Minute | Hour | Day | Month | Year

text \<open>
  \<open>cube_st_reference\<close>: the spatial window, the projection, the grid size and the temporal
  range with its step.  Modelled from the spec: the datetime and duration classes are not among
  the sources; \<open>t0\<close> and \<open>t1\<close> are instants and \<open>dt\<close> is a number of steps, all counted in
  \<open>dt_unit\<close>, so that the difference of two instants of a reference is a duration in its unit.
\<close>

record cube_st_reference =
  left :: double
  right :: double
  bottom :: double
  top :: double
  srs :: string
  nx :: nat
  ny :: nat
  t0 :: int
  t1 :: int
  dt :: int
  dt_unit :: datetime_unit

text \<open>
  Modelled from the spec: \<open>nt()\<close>, \<open>dx()\<close> and \<open>dy()\<close> of the reference (section 3): \<open>nt\<close> is
  the number of whole steps \<open>dt\<close> in the range from \<open>t0\<close> to \<open>t1\<close>, \<open>t0\<close> included; a range that
  consists of \<open>t0\<close> alone has one step, whatever \<open>dt\<close> is.
\<close>

definition nt :: "'a cube_st_reference_scheme \<Rightarrow> nat" where
  "nt r = (if t1 r = t0 r then 1 else nat ((t1 r - t0 r) div dt r) + 1)"

definition dx :: "'a cube_st_reference_scheme \<Rightarrow> double" where
  "dx r = ddiv (dsub (right r) (left r)) (Fin (real (nx r)))"

definition dy :: "'a cube_st_reference_scheme \<Rightarrow> double" where
  "dy r = ddiv (dsub (top r) (bottom r)) (Fin (real (ny r)))"

text \<open>
  A cube as the operators see it through a shared pointer: its reference, its chunk
  size (t, y, x), the names of its bands, and the virtual \<open>read_chunk\<close>.  Chunk identifiers are
  integers, so that the test \<open>id < 0\<close> of the code has a meaning; the parameter \<open>id\<close> of the
  source is \<open>cid\<close> here.
\<close>

record cube =
  st_reference :: cube_st_reference
  chunk_size :: "nat \<times> nat \<times> nat"
  bands :: "string list"
  read_chunk :: "int \<Rightarrow> error + chunk_data"

definition size_t :: "'a cube_scheme \<Rightarrow> nat" where
  "size_t c = nt (st_reference c)"

definition size_y :: "'a cube_scheme \<Rightarrow> nat" where
  "size_y c = ny (st_reference c)"

definition size_x :: "'a cube_scheme \<Rightarrow> nat" where
  "size_x c = nx (st_reference c)"

text \<open>
  Modelled from the spec: the chunk geometry of the cube base class (section 3, chunk size):
  the counts are the rounded-up quotients, the identifier is the row-major index of
  (ct, cy, cx) with x fastest, and a chunk at the boundary is smaller.
\<close>

definition ceil_div :: "nat \<Rightarrow> nat \<Rightarrow> nat" where
  "ceil_div n k = (if k = 0 then 0 else (n + k - 1) div k)"

definition count_chunks_t :: "'a cube_scheme \<Rightarrow> nat" where
  "count_chunks_t c = (case chunk_size c of (cst, csy, csx) \<Rightarrow> ceil_div (size_t c) cst)"

definition count_chunks_y :: "'a cube_scheme \<Rightarrow> nat" where
  "count_chunks_y c = (case chunk_size c of (cst, csy, csx) \<Rightarrow> ceil_div (size_y c) csy)"

definition count_chunks_x :: "'a cube_scheme \<Rightarrow> nat" where
  "count_chunks_x c = (case chunk_size c of (cst, csy, csx) \<Rightarrow> ceil_div (size_x c) csx)"

definition count_chunks :: "'a cube_scheme \<Rightarrow> nat" where
  "count_chunks c = count_chunks_t c * count_chunks_y c * count_chunks_x c"

definition chunk_size_of :: "'a cube_scheme \<Rightarrow> nat \<Rightarrow> nat \<times> nat \<times> nat" where
  "chunk_size_of c cid =
     (case chunk_size c of (cst, csy, csx) \<Rightarrow>
        let ct = cid div (count_chunks_y c * count_chunks_x c);
            cy = (cid mod (count_chunks_y c * count_chunks_x c)) div count_chunks_x c;
            cx = cid mod count_chunks_x c
        in (min cst (size_t c - ct * cst), min csy (size_y c - cy * csy), min csx (size_x c - cx * csx)))"

text \<open>
  Modelled from the spec: \<open>band_collection::get_index\<close>: the index of a band is its position in
  the sequence (section 3); for a name that no band has this is the number of bands.
\<close>

definition get_index :: "string list \<Rightarrow> string \<Rightarrow> nat" where
  "get_index bs name = length (takeWhile (\<lambda>b. b \<noteq> name) bs)"

section \<open>The reduce-over-space operator (reduce_space.cpp)\<close>

text \<open>The reducer objects that \<open>read_chunk\<close> creates, by class.\<close>

datatype reducer =
    Min_reducer reducer_singleband_s
  | Max_reducer reducer_singleband_s
  | Mean_reducer mean_reducer_singleband_s
  | Median_reducer median_reducer_singleband_s
  | Sum_reducer reducer_singleband_s
  | Count_reducer reducer_singleband_s
  | Prod_reducer reducer_singleband_s
  | Var_reducer var_reducer_singleband_s
  | Sd_reducer var_reducer_singleband_s

text \<open>The selection by name (lines 366-385) followed by the call of \<open>init\<close> (line 389).\<close>

definition reducer_init :: "string \<Rightarrow> chunk_data \<Rightarrow> nat \<Rightarrow> nat \<Rightarrow> error + chunk_data \<times> reducer" where
  "reducer_init name a bi bo =
     (if name = ''min'' then Inr (map_prod id Min_reducer (min_init a bi bo))
      else if name = ''max'' then Inr (map_prod id Max_reducer (max_init a bi bo))
      else if name = ''mean'' then Inr (map_prod id Mean_reducer (mean_init a bi bo))
      else if name = ''median'' then Inr (map_prod id Median_reducer (median_init a bi bo))
      else if name = ''sum'' then Inr (map_prod id Sum_reducer (sum_init a bi bo))
      else if name = ''count'' then Inr (map_prod id Count_reducer (count_init a bi bo))
      else if name = ''prod'' then Inr (map_prod id Prod_reducer (prod_init a bi bo))
      else if name = ''var'' then Inr (map_prod id Var_reducer (var_init a bi bo))
      else if name = ''sd'' then Inr (map_prod id Sd_reducer (var_init a bi bo))
      else Inl (Thrown ''ERROR in reduce_time_cube::read_chunk(): Unknown reducer given''))"

fun reducer_combine :: "reducer \<Rightarrow> chunk_data \<Rightarrow> chunk_data \<Rightarrow> chunk_data \<times> reducer" where
  "reducer_combine (Min_reducer r) a b = (min_combine r a b, Min_reducer r)"
| "reducer_combine (Max_reducer r) a b = (max_combine r a b, Max_reducer r)"
| "reducer_combine (Mean_reducer r) a b = map_prod id Mean_reducer (mean_combine r a b)"
| "reducer_combine (Median_reducer r) a b = map_prod id Median_reducer (median_combine r a b)"
| "reducer_combine (Sum_reducer r) a b = (sum_combine r a b, Sum_reducer r)"
| "reducer_combine (Count_reducer r) a b = (count_combine r a b, Count_reducer r)"
| "reducer_combine (Prod_reducer r) a b = (prod_combine r a b, Prod_reducer r)"
| "reducer_combine (Var_reducer r) a b = map_prod id Var_reducer (var_combine r a b)"
| "reducer_combine (Sd_reducer r) a b = map_prod id Sd_reducer (var_combine r a b)"

fun reducer_finalize :: "reducer \<Rightarrow> chunk_data \<Rightarrow> chunk_data" where
  "reducer_finalize (Mean_reducer r) a = mean_finalize r a"
| "reducer_finalize (Median_reducer r) a = median_finalize r a"
| "reducer_finalize (Var_reducer r) a = var_finalize r a"
| "reducer_finalize (Sd_reducer r) a = sd_finalize r a"
| "reducer_finalize _ a = a"

text \<open>
  \<open>reduce_space_cube\<close>: a cube with its input cube and the list of (reducer name, band name)
  pairs.
\<close>

record reduce_space_cube = cube +
  in_cube :: cube
  reducer_bands :: "(string \<times> string) list"

text \<open>The first loop of \<open>read_chunk\<close> (lines 364-392): reducer \<open>i\<close> is created and initialised.\<close>

fun init_reducers ::
  "string list \<Rightarrow> (string \<times> string) list \<Rightarrow> nat \<Rightarrow> chunk_data \<Rightarrow> error + chunk_data \<times> reducer list" where
  "init_reducers in_bands [] i out = Inr (out, [])"
| "init_reducers in_bands ((name, band) # rbs) i out =
     (case reducer_init name out (get_index in_bands band) i of
        Inl e \<Rightarrow> Inl e
      | Inr (out', r) \<Rightarrow>
          (case init_reducers in_bands rbs (Suc i) out' of
             Inl e \<Rightarrow> Inl e
           | Inr (out'', rs) \<Rightarrow> Inr (out'', r # rs)))"

text \<open>The inner loop of lines 397-399: every reducer combines the input chunk \<open>x\<close>.\<close>

fun combine_reducers :: "reducer list \<Rightarrow> chunk_data \<Rightarrow> chunk_data \<Rightarrow> chunk_data \<times> reducer list" where
  "combine_reducers [] out x = (out, [])"
| "combine_reducers (r # rs) out x =
     (case reducer_combine r out x of
        (out', r') \<Rightarrow> (case combine_reducers rs out' x of (out'', rs') \<Rightarrow> (out'', r' # rs')))"

text \<open>The loop of lines 395-400 over the input chunks; a \<open>read_chunk\<close> of the input that throws
  ends it.\<close>

fun combine_chunks ::
  "(int \<Rightarrow> error + chunk_data) \<Rightarrow> int list \<Rightarrow> chunk_data \<times> reducer list \<Rightarrow> error + chunk_data \<times> reducer list" where
  "combine_chunks rc [] s = Inr s"
| "combine_chunks rc (i # is) s =
     (case rc i of
        Inl e \<Rightarrow> Inl e
      | Inr x \<Rightarrow> combine_chunks rc is (combine_reducers (snd s) (fst s) x))"

definition finalize_reducers :: "reducer list \<Rightarrow> chunk_data \<Rightarrow> chunk_data" where
  "finalize_reducers rs out = fold reducer_finalize rs out"

text \<open>The result chunk that \<open>read_chunk\<close> allocates and fills with NaN (lines 353-361), for
  \<open>nb\<close> reducers and \<open>st\<close> time slots.\<close>

definition new_result_chunk :: "nat \<Rightarrow> nat \<Rightarrow> chunk_data" where
  "new_result_chunk nb st = \<lparr>size_btyx = (nb, st, 1, 1), buf = replicate (nb * st * 1 * 1) NaN\<rparr>"

definition reduce_space_read_chunk :: "reduce_space_cube \<Rightarrow> int \<Rightarrow> error + chunk_data" where
  "reduce_space_read_chunk c cid =
     (if cid < 0 \<or> cid \<ge> int (count_chunks c) then Inr empty_chunk
      else if size_y (in_cube c) = 1 \<and> size_x (in_cube c) = 1 then read_chunk (in_cube c) cid
      else
        let st = fst (chunk_size_of c (nat cid));
            nb = length (reducer_bands c);
            out = new_result_chunk nb st;
            n = count_chunks_x (in_cube c) * count_chunks_y (in_cube c)
        in (case init_reducers (bands (in_cube c)) (reducer_bands c) 0 out of
              Inl e \<Rightarrow> Inl e
            | Inr s \<Rightarrow>
                (case combine_chunks (read_chunk (in_cube c))
                        (map int [nat cid * n ..< (nat cid + 1) * n]) s of
                   Inl e \<Rightarrow> Inl e
                 | Inr (out', rs) \<Rightarrow> Inr (finalize_reducers rs out'))))"

text \<open>
  Modelled from the spec: the constructor of \<open>reduce_space_cube\<close> (reduce_space.h is not among
  the sources; section 4.5): the time axis of the input, \<open>nx = ny = 1\<close>, one chunk in y and x.
\<close>

definition reduce_space_cube_create :: "cube \<Rightarrow> (string \<times> string) list \<Rightarrow> reduce_space_cube" where
  "reduce_space_cube_create inc rbs =
     (let c = \<lparr>st_reference = (st_reference inc)\<lparr>nx := 1, ny := 1\<rparr>,
               chunk_size = (case chunk_size inc of (cst, csy, csx) \<Rightarrow> (cst, 1, 1)),
               bands = map (\<lambda>(name, band). band @ ''_'' @ name) rbs,
               read_chunk = (\<lambda>cid. Inr empty_chunk),
               in_cube = inc, reducer_bands = rbs\<rparr>
      in c\<lparr>read_chunk := reduce_space_read_chunk c\<rparr>)"

section \<open>Reading a chunk of the image-collection source (chunking.cpp)\<close>

text \<open>The enumeration \<open>aggregation\<close>; the prefix keeps clear of the \<open>MIN\<close> and \<open>MAX\<close> of HOL.\<close>

datatype aggregation = A_NONE | A_MIN | A_MAX | A_MEAN | A_MEDIAN

text \<open>
  A row of the catalog query \<open>find_range_st\<close>.  The datetime of the row is the instant that
  \<open>datetime::from_string\<close> and the cast to the unit of the view yield.
\<close>

record find_range_st_row =
  descriptor :: string
  datetime :: int
  band_name :: string
  band_num :: nat

text \<open>
  The collaborators of \<open>read\<close>.  The catalog gives the bands of the collection and, for a chunk,
  the rows whose footprint meets its bounds, ordered by descriptor.  The raster facility says
  whether a dataset opens and whether the option objects can be created, and it gives, for a
  chunk, a descriptor and a band number, the plane that \<open>RasterIO\<close> reads from the warped image.
\<close>

record image_collection =
  get_bands :: "string list"
  find_range_st :: "int \<Rightarrow> find_range_st_row list"

record raster_facility =
  warp_options_new :: bool
  translate_options_new :: "string \<Rightarrow> bool"
  gdal_open :: "string \<Rightarrow> bool"
  raster_io :: "int \<Rightarrow> string \<Rightarrow> nat \<Rightarrow> double list"

text \<open>The image-collection cube \<open>_c\<close> of the chunking: a cube with the labels of its view.\<close>

record image_collection_cube = cube +
  aggregation_method :: aggregation
  resampling_method :: string
  collection :: image_collection
  facility :: raster_facility

text \<open>The aggregation state that \<open>read\<close> creates (lines 243-255); \<open>MEDIAN\<close> has no branch of
  its own and takes the last one.\<close>

datatype aggregation_state =
    State_mean aggregation_state_mean
  | State_min
  | State_max
  | State_none

definition aggregation_state_new :: "aggregation \<Rightarrow> aggregation_state" where
  "aggregation_state_new m =
     (if m = A_MEAN then State_mean aggregation_state_mean_new
      else if m = A_MIN then State_min
      else if m = A_MAX then State_max
      else State_none)"

fun aggregation_state_update ::
  "nat \<Rightarrow> aggregation_state \<Rightarrow> double list \<Rightarrow> nat \<Rightarrow> double list \<Rightarrow> 32 word \<Rightarrow> 32 word
     \<Rightarrow> double list \<times> aggregation_state" where
  "aggregation_state_update n (State_mean s) chunk off img b t =
     map_prod id State_mean (aggregation_state_mean_update n s chunk off img b t)"
| "aggregation_state_update n State_min chunk off img b t =
     (aggregation_state_min_update n chunk off img, State_min)"
| "aggregation_state_update n State_max chunk off img b t =
     (aggregation_state_max_update n chunk off img, State_max)"
| "aggregation_state_update n State_none chunk off img b t =
     (aggregation_state_none_update n chunk off img, State_none)"

text \<open>Division of C++ integers truncates towards zero.\<close>

definition tdiv :: "int \<Rightarrow> int \<Rightarrow> int" where
  "tdiv a b = sgn a * sgn b * (\<bar>a\<bar> div \<bar>b\<bar>)"

text \<open>
  Modelled from the spec: \<open>bounds_from_chunk(id).t0\<close> (section 4.2): the tile index in time
  multiplied by the chunk size and the step, from the start of the cube.
\<close>

definition chunk_t0 :: "'a cube_scheme \<Rightarrow> nat \<Rightarrow> int" where
  "chunk_t0 c cid =
     (case chunk_size c of (cst, csy, csx) \<Rightarrow>
        t0 (st_reference c)
          + int (cid div (count_chunks_y c * count_chunks_x c) * cst) * dt (st_reference c))"

text \<open>
  The cell of the chunk buffer where the plane of a band number and a time slot starts
  (lines 373 and 376).  A negative offset is outside the buffer.
\<close>

definition plane_offset :: "nat \<times> nat \<times> nat \<times> nat \<Rightarrow> nat \<Rightarrow> int \<Rightarrow> int" where
  "plane_offset sz bnum it =
     (case sz of (nb, st, sy, sx) \<Rightarrow> (int bnum - 1) * int (st * sy * sx) + it * int (sy * sx))"

text \<open>
  The loop over the bands of one image (lines 368-382): with \<open>NONE\<close> the plane is read into the
  chunk buffer, otherwise into \<open>img_buf\<close> and handed to the aggregation state with the loop
  index \<open>b\<close> and the slot \<open>it\<close>.
\<close>

fun read_image_bands ::
  "image_collection_cube \<Rightarrow> int \<Rightarrow> nat \<times> nat \<times> nat \<times> nat \<Rightarrow> string \<Rightarrow> int \<Rightarrow> (string \<times> nat) list \<Rightarrow> nat
     \<Rightarrow> double list \<times> aggregation_state \<Rightarrow> double list \<times> aggregation_state" where
  "read_image_bands c cid sz desc it [] b s = s"
| "read_image_bands c cid sz desc it ((bname, bnum) # rels) b s =
     (let n = (case sz of (nb, st, sy, sx) \<Rightarrow> sy * sx);
          img = raster_io (facility c) cid desc bnum;
          off = plane_offset sz bnum it
      in read_image_bands c cid sz desc it rels (Suc b)
           (if off < 0 then s
            else if aggregation_method c = A_NONE then (memcpy (fst s) (nat off) img n, snd s)
            else aggregation_state_update n (snd s) (fst s) (nat off) img (of_nat b) (word_of_int it)))"

text \<open>
  The loop over the images (lines 263-385): the rows of one descriptor are taken together, the
  dataset is opened and warped, the time slot is computed from the datetime of the last row of
  the group, and the bands are read.
\<close>

function read_images ::
  "image_collection_cube \<Rightarrow> int \<Rightarrow> nat \<times> nat \<times> nat \<times> nat \<Rightarrow> find_range_st_row list
     \<Rightarrow> double list \<times> aggregation_state \<Rightarrow> error + double list \<times> aggregation_state" where
  "read_images c cid sz [] s = Inr s"
| "read_images c cid sz (r # rs) s =
     (let group = takeWhile (\<lambda>x. descriptor x = descriptor r) (r # rs);
          rest = dropWhile (\<lambda>x. descriptor x = descriptor r) (r # rs);
          band_rels = map (\<lambda>x. (band_name x, band_num x)) group
      in if \<not> gdal_open (facility c) (descriptor r)
         then Inl (Thrown ('' default_chunking::read(): cannot open'' @ [CHR 0x27]
                            @ (case rest of [] \<Rightarrow> [] | x # _ \<Rightarrow> descriptor x) @ [CHR 0x27]))
         else if \<not> translate_options_new (facility c) (descriptor r)
         then Inl (Thrown ''default_chunking::read(): cannot create gdal_translate options.'')
         else
           let it = tdiv (datetime (last group) - chunk_t0 c (nat cid)) (dt (st_reference c))
           in read_images c cid sz rest (read_image_bands c cid sz (descriptor r) it band_rels 0 s))"
  by pat_completeness auto
termination
  by (relation "measure (\<lambda>(c, cid, sz, rows, s). length rows)")
     (auto simp: less_Suc_eq_le length_dropWhile_le)

text \<open>
  \<open>default_chunking::read\<close>.  The buffer comes from \<open>calloc\<close>, so it starts with zeros;
  \<open>finalize\<close> of the aggregation state frees counters and leaves the buffer as it is.
\<close>

definition default_chunking_read :: "image_collection_cube \<Rightarrow> int \<Rightarrow> error + chunk_data" where
  "default_chunking_read c cid =
     (if cid < 0 \<or> cid \<ge> int (count_chunks c) then Inr empty_chunk
      else
        let bs = get_bands (collection c);
            size_tyx = chunk_size_of c (nat cid);
            sz = (length bs, fst size_tyx, fst (snd size_tyx), snd (snd size_tyx));
            buf0 = replicate (length bs * fst size_tyx * fst (snd size_tyx) * snd (snd size_tyx)) (Fin 0);
            datasets = find_range_st (collection c) cid
        in if datasets = [] then Inr empty_chunk
           else if \<not> warp_options_new (facility c)
           then Inl (Thrown '' default_chunking::read(): cannot create gdalwarp options.'')
           else (case read_images c cid sz datasets (buf0, aggregation_state_new (aggregation_method c)) of
                   Inl e \<Rightarrow> Inl e
                 | Inr s \<Rightarrow> Inr \<lparr>size_btyx = sz, buf = fst s\<rparr>))"

text \<open>
  Examples.  \<open>two_image_source\<close> is a source with one band and one chunk of one time slot and
  two pixels; its catalog has two images for the slot, with the pixels 1, NaN and 3, 5.
\<close>

definition example_reference :: "nat \<Rightarrow> nat \<Rightarrow> int \<Rightarrow> cube_st_reference" where
  "example_reference w h tlast =
     \<lparr>left = Fin 0, right = Fin (real w), bottom = Fin 0, top = Fin (real h), srs = ''EPSG:4326'',
      nx = w, ny = h, t0 = 0, t1 = tlast, dt = 1, dt_unit = Day\<rparr>"

definition two_image_source :: "aggregation \<Rightarrow> image_collection_cube" where
  "two_image_source m =
     \<lparr>st_reference = example_reference 2 1 0,
      chunk_size = (1, 1, 2),
      bands = [''b1''],
      read_chunk = (\<lambda>cid. Inr empty_chunk),
      aggregation_method = m,
      resampling_method = ''near'',
      collection = \<lparr>get_bands = [''b1''],
                     find_range_st = (\<lambda>cid. [\<lparr>descriptor = ''a.tif'', datetime = 0, band_name = ''b1'', band_num = 1\<rparr>,
                                               \<lparr>descriptor = ''b.tif'', datetime = 0, band_name = ''b1'', band_num = 1\<rparr>])\<rparr>,
      facility = \<lparr>warp_options_new = True, translate_options_new = (\<lambda>d. True), gdal_open = (\<lambda>d. True),
                   raster_io = (\<lambda>cid d b. if d = ''a.tif'' then [Fin 1, NaN] else [Fin 3, Fin 5])\<rparr>\<rparr>"

text \<open>
  \<open>grid_cube\<close> is a cube of 2 by 2 pixels and one time step with one band and one chunk,
  \<open>grid_chunk\<close>, which holds 1, 2, 3, 4.  \<open>point_cube\<close> is a cube of a single pixel and one time
  step, which holds 7.
\<close>

definition grid_chunk :: chunk_data where
  "grid_chunk = \<lparr>size_btyx = (1, 1, 2, 2), buf = [Fin 1, Fin 2, Fin 3, Fin 4]\<rparr>"

definition grid_cube :: cube where
  "grid_cube =
     \<lparr>st_reference = example_reference 2 2 0, chunk_size = (1, 2, 2), bands = [''x''],
      read_chunk = (\<lambda>cid. if cid = 0 then Inr grid_chunk else Inr empty_chunk)\<rparr>"

definition point_chunk :: chunk_data where
  "point_chunk = \<lparr>size_btyx = (1, 1, 1, 1), buf = [Fin 7]\<rparr>"

definition point_cube :: cube where
  "point_cube =
     \<lparr>st_reference = example_reference 1 1 0, chunk_size = (1, 1, 1), bands = [''x''],
      read_chunk = (\<lambda>cid. if cid = 0 then Inr point_chunk else Inr empty_chunk)\<rparr>"

section \<open>The reduce-over-time operator (reduce.h)\<close>

definition known_reducer :: "string \<Rightarrow> bool" where
  "known_reducer reducer \<longleftrightarrow>
     reducer = ''min'' \<or> reducer = ''max'' \<or> reducer = ''mean'' \<or> reducer = ''median'' \<or>
     reducer = ''count'' \<or> reducer = ''var'' \<or> reducer = ''sd'' \<or> reducer = ''prod'' \<or>
     reducer = ''sum''"

record reduce_cube = cube +
  reduce_in_cube :: cube
  reducer :: string

text \<open>
  The constructor \<open>reduce_cube::reduce_cube\<close> (lines 45-71).  The reference of the input is
  copied; \<open>dt\<close> becomes \<open>t1 - t0\<close> and then \<open>t1\<close> becomes \<open>t0\<close>; the \<open>assert\<close> checks \<open>nt() == 1\<close>;
  the chunk size in time is 1; a band gets the suffix of the reducer when the input has more
  than one time step; an unknown reducer throws.  \<open>read_chunk\<close> is defined in reduce.cpp, which
  is not among the sources, and is the parameter \<open>impl\<close>.
\<close>

definition reduce_cube_new :: "(int \<Rightarrow> error + chunk_data) \<Rightarrow> cube \<Rightarrow> string \<Rightarrow> error + reduce_cube" where
  "reduce_cube_new impl inc r =
     (let r0 = st_reference inc;
          r1 = r0\<lparr>dt := t1 r0 - t0 r0\<rparr>;
          r2 = r1\<lparr>t1 := t0 r1\<rparr>
      in if nt r2 \<noteq> 1 then Inl Assertion_failed
         else if \<not> known_reducer r
         then Inl (Thrown ''ERROR in reduce_cube::reduce_cube(): Unknown reducer given'')
         else Inr \<lparr>st_reference = r2,
                   chunk_size = (case chunk_size inc of (cst, csy, csx) \<Rightarrow> (1, csy, csx)),
                   bands = map (\<lambda>b. if size_t inc > 1 then b @ ''_'' @ r else b) (bands inc),
                   read_chunk = impl,
                   reduce_in_cube = inc, reducer = r\<rparr>)"

text \<open>An example: a cube of ten daily steps.\<close>

definition ten_days_cube :: cube where
  "ten_days_cube =
     \<lparr>st_reference = example_reference 2 2 9, chunk_size = (4, 2, 2), bands = [''x''],
      read_chunk = (\<lambda>cid. Inr empty_chunk)\<rparr>"

section \<open>The graph factory (cube_factory.cpp)\<close>

text \<open>A JSON value; an object is the list of its members.\<close>

datatype json =
    JNull
  | JBool bool
  | JNumber real
  | JString string
  | JArray "json list"
  | JObject "(string \<times> json) list"

text \<open>
  \<open>j.count(key)\<close> and \<open>j[key]\<close>, which yields null for a key that the object does not have;
  \<open>j[i]\<close> on an array; and the conversions \<open>get<T>()\<close>, which throw a type error on a value
  of another kind.
\<close>

fun jcount :: "json \<Rightarrow> string \<Rightarrow> nat" where
  "jcount (JObject kvs) k = (if k \<in> fst ` set kvs then 1 else 0)"
| "jcount _ k = 0"

fun jat :: "json \<Rightarrow> string \<Rightarrow> json" where
  "jat (JObject kvs) k = (case map_of kvs k of Some v \<Rightarrow> v | None \<Rightarrow> JNull)"
| "jat _ k = JNull"

fun jidx :: "json \<Rightarrow> nat \<Rightarrow> json" where
  "jidx (JArray vs) i = (if i < length vs then vs ! i else JNull)"
| "jidx _ i = JNull"

definition req :: "'a option \<Rightarrow> error + 'a" where
  "req x = (case x of None \<Rightarrow> Inl Json_type_error | Some v \<Rightarrow> Inr v)"

definition bind_e :: "error + 'a \<Rightarrow> ('a \<Rightarrow> error + 'b) \<Rightarrow> error + 'b" where
  "bind_e x f = (case x of Inl e \<Rightarrow> Inl e | Inr v \<Rightarrow> f v)"

fun get_string :: "json \<Rightarrow> string option" where
  "get_string (JString s) = Some s"
| "get_string _ = None"

fun get_bool :: "json \<Rightarrow> bool option" where
  "get_bool (JBool b) = Some b"
| "get_bool _ = None"

fun get_double :: "json \<Rightarrow> real option" where
  "get_double (JNumber r) = Some r"
| "get_double _ = None"

fun get_uint :: "json \<Rightarrow> nat option" where
  "get_uint (JNumber r) = Some (nat \<lfloor>r\<rfloor>)"
| "get_uint _ = None"

fun all_some :: "'a option list \<Rightarrow> 'a list option" where
  "all_some [] = Some []"
| "all_some (x # xs) =
     (case x of None \<Rightarrow> None
      | Some v \<Rightarrow> (case all_some xs of None \<Rightarrow> None | Some vs \<Rightarrow> Some (v # vs)))"

fun get_vector :: "(json \<Rightarrow> 'a option) \<Rightarrow> json \<Rightarrow> 'a list option" where
  "get_vector f (JArray vs) = all_some (map f vs)"
| "get_vector f _ = None"

fun get_string_pair :: "json \<Rightarrow> (string \<times> string) option" where
  "get_string_pair (JArray [JString a, JString b]) = Some (a, b)"
| "get_string_pair _ = None"

text \<open>
  The cubes that the generators create, by the \<open>create\<close> function that is called and its
  arguments.  The view of a source or dummy cube is kept as the JSON that
  \<open>cube_view::read_json_string\<close> receives; a mask is its band and its JSON.
\<close>

datatype cube_node =
    Reduce_cube cube_node string
  | Reduce_time_cube cube_node "(string \<times> string) list"
  | Reduce_space_cube cube_node "(string \<times> string) list"
  | Window_time_cube_kernel cube_node "real list" nat nat
  | Window_time_cube_reducers cube_node "(string \<times> string) list" nat nat
  | Select_bands_cube cube_node "string list"
  | Filter_pixel_cube cube_node string
  | Apply_pixel_cube cube_node "string list" "string list option"
  | Join_bands_cube cube_node cube_node string string
  | Stream_cube cube_node string bool
  | Image_collection_cube string json "nat \<times> nat \<times> nat" "(json \<times> json) option" "string list option"
  | Dummy_cube json nat real "nat \<times> nat \<times> nat"

definition get_chunk_size :: "json \<Rightarrow> error + nat \<times> nat \<times> nat" where
  "get_chunk_size j =
     bind_e (req (get_uint (jidx (jat j ''chunk_size'') 0))) (\<lambda>t.
     bind_e (req (get_uint (jidx (jat j ''chunk_size'') 1))) (\<lambda>y.
     bind_e (req (get_uint (jidx (jat j ''chunk_size'') 2))) (\<lambda>x. Inr (t, y, x))))"

text \<open>
  The mask of an image-collection node (lines 124-137): without a mask type, or with one that is
  neither \<open>value_mask\<close> nor \<open>range_mask\<close>, a warning is logged and the mask is ignored.
\<close>

definition get_mask :: "json \<Rightarrow> error + (json \<times> json) option" where
  "get_mask j =
     (if jcount j ''mask'' > 0 then
        (if jcount (jat j ''mask'') ''mask_type'' = 0 then Inr None
         else bind_e (req (get_string (jat (jat j ''mask'') ''mask_type''))) (\<lambda>mask_type.
                if mask_type = ''value_mask'' then
                  bind_e (req (get_vector get_double (jat (jat j ''mask'') ''values''))) (\<lambda>_.
                  bind_e (req (get_bool (jat (jat j ''mask'') ''invert''))) (\<lambda>_.
                    Inr (Some (jat (jat j ''mask'') ''mask_band'', jat j ''mask''))))
                else if mask_type = ''range_mask'' then
                  bind_e (req (get_double (jat (jat j ''mask'') ''min''))) (\<lambda>_.
                  bind_e (req (get_double (jat (jat j ''mask'') ''max''))) (\<lambda>_.
                  bind_e (req (get_bool (jat (jat j ''mask'') ''invert''))) (\<lambda>_.
                    Inr (Some (jat (jat j ''mask'') ''mask_band'', jat j ''mask'')))))
                else Inr None))
      else Inr None)"

lemma jat_size: "jcount j k \<noteq> 0 \<Longrightarrow> size (jat j k') < size j"
proof (cases j)
  case (JObject kvs)
  show ?thesis
  proof (cases "map_of kvs k'")
    case None
    then show ?thesis by (simp add: JObject)
  next
    case (Some v)
    then have "(k', v) \<in> set kvs" by (rule map_of_SomeD)
    then have "size v < Suc (size_list (size_prod (\<lambda>_. 0) size) kvs)"
      by (induction kvs) auto
    with Some show ?thesis by (simp add: JObject)
  qed
qed simp_all

text \<open>
  The generators that \<open>register_default\<close> puts into \<open>cube_generators\<close>.  A generator gets the
  node \<open>j\<close>; \<open>sub k\<close> is \<open>instance()->create_from_json(j[k])\<close>, and \<open>exists\<close> is
  \<open>filesystem::exists\<close>.
\<close>

type_synonym generator = "(string \<Rightarrow> bool) \<Rightarrow> (string \<Rightarrow> error + cube_node) \<Rightarrow> json \<Rightarrow> error + cube_node"

text \<open>\<open>reduce_cube::create\<close> runs the constructor of reduce.h, which throws for a reducer that
  it does not know.\<close>

definition generator_reduce :: generator where
  "generator_reduce exists sub j =
     bind_e (sub ''in_cube'') (\<lambda>c.
     bind_e (req (get_string (jat j ''reducer''))) (\<lambda>r.
       if known_reducer r then Inr (Reduce_cube c r)
       else Inl (Thrown ''ERROR in reduce_cube::reduce_cube(): Unknown reducer given'')))"

definition generator_reduce_time :: generator where
  "generator_reduce_time exists sub j =
     bind_e (sub ''in_cube'') (\<lambda>c.
     bind_e (req (get_vector get_string_pair (jat j ''reducer_bands''))) (\<lambda>rb.
       Inr (Reduce_time_cube c rb)))"

definition generator_reduce_space :: generator where
  "generator_reduce_space exists sub j =
     bind_e (sub ''in_cube'') (\<lambda>c.
     bind_e (req (get_vector get_string_pair (jat j ''reducer_bands''))) (\<lambda>rb.
       Inr (Reduce_time_cube c rb)))"

definition generator_window_time :: generator where
  "generator_window_time exists sub j =
     (if jcount j ''kernel'' > 0 then
        bind_e (sub ''in_cube'') (\<lambda>c.
        bind_e (req (get_vector get_double (jat j ''kernel''))) (\<lambda>k.
        bind_e (req (get_uint (jat j ''win_size_l''))) (\<lambda>l.
        bind_e (req (get_uint (jat j ''win_size_r''))) (\<lambda>r.
          Inr (Window_time_cube_kernel c k l r)))))
      else
        bind_e (sub ''in_cube'') (\<lambda>c.
        bind_e (req (get_vector get_string_pair (jat j ''reducer_bands''))) (\<lambda>rb.
        bind_e (req (get_uint (jat j ''win_size_l''))) (\<lambda>l.
        bind_e (req (get_uint (jat j ''win_size_r''))) (\<lambda>r.
          Inr (Window_time_cube_reducers c rb l r))))))"

definition generator_select_bands :: generator where
  "generator_select_bands exists sub j =
     bind_e (sub ''in_cube'') (\<lambda>c.
     bind_e (req (get_vector get_string (jat j ''bands''))) (\<lambda>bs.
       Inr (Select_bands_cube c bs)))"

definition generator_filter_pixel :: generator where
  "generator_filter_pixel exists sub j =
     bind_e (sub ''in_cube'') (\<lambda>c.
     bind_e (req (get_string (jat j ''predicate''))) (\<lambda>p.
       Inr (Filter_pixel_cube c p)))"

definition generator_apply_pixel :: generator where
  "generator_apply_pixel exists sub j =
     (if jcount j ''band_names'' > 0 then
        bind_e (sub ''in_cube'') (\<lambda>c.
        bind_e (req (get_vector get_string (jat j ''expr''))) (\<lambda>es.
        bind_e (req (get_vector get_string (jat j ''band_names''))) (\<lambda>ns.
          Inr (Apply_pixel_cube c es (Some ns)))))
      else
        bind_e (sub ''in_cube'') (\<lambda>c.
        bind_e (req (get_vector get_string (jat j ''expr''))) (\<lambda>es.
          Inr (Apply_pixel_cube c es None))))"

definition generator_join_bands :: generator where
  "generator_join_bands exists sub j =
     bind_e (sub ''A'') (\<lambda>ca.
     bind_e (sub ''B'') (\<lambda>cb.
     bind_e (req (get_string (jat j ''prefix_A''))) (\<lambda>pa.
     bind_e (req (get_string (jat j ''prefix_B''))) (\<lambda>pb.
       Inr (Join_bands_cube ca cb pa pb)))))"

definition generator_stream :: generator where
  "generator_stream exists sub j =
     bind_e (sub ''in_cube'') (\<lambda>c.
     bind_e (req (get_string (jat j ''command''))) (\<lambda>cmd.
     bind_e (req (get_bool (jat j ''file_streaming''))) (\<lambda>fs.
       Inr (Stream_cube c cmd fs))))"

definition generator_image_collection :: generator where
  "generator_image_collection exists sub j =
     bind_e (req (get_string (jat j ''file''))) (\<lambda>file.
       if \<not> exists file
       then Inl (Thrown ''ERROR in cube_generators[\"image_collection\"](): image collection file does not exist.'')
       else
         bind_e (get_chunk_size j) (\<lambda>cs.
         bind_e (get_mask j) (\<lambda>mask.
         bind_e (if jcount j ''warp_args'' > 0
                 then map_sum id Some (req (get_vector get_string (jat j ''warp_args'')))
                 else Inr None) (\<lambda>warp_args.
           Inr (Image_collection_cube file (jat j ''view'') cs mask warp_args)))))"

definition generator_dummy :: generator where
  "generator_dummy exists sub j =
     bind_e (req (get_uint (jat j ''nbands''))) (\<lambda>nbands.
     bind_e (req (get_double (jat j ''fill''))) (\<lambda>fill.
     bind_e (get_chunk_size j) (\<lambda>cs.
       Inr (Dummy_cube (jat j ''view'') nbands fill cs))))"

definition cube_generators :: "string \<rightharpoonup> generator" where
  "cube_generators =
     map_of [(''reduce'', generator_reduce),
             (''reduce_time'', generator_reduce_time),
             (''reduce_space'', generator_reduce_space),
             (''window_time'', generator_window_time),
             (''select_bands'', generator_select_bands),
             (''filter_pixel'', generator_filter_pixel),
             (''apply_pixel'', generator_apply_pixel),
             (''join_bands'', generator_join_bands),
             (''stream'', generator_stream),
             (''image_collection'', generator_image_collection),
             (''dummy'', generator_dummy)]"

text \<open>
  \<open>cube_factory::create_from_json\<close>.  A discriminator without a generator makes
  \<open>cube_generators[cube_type]\<close> an empty \<open>std::function\<close>, whose call throws.
\<close>

function create_from_json :: "(string \<Rightarrow> bool) \<Rightarrow> json \<Rightarrow> error + cube_node" where
  "create_from_json exists j =
     (if jcount j ''cube_type'' = 0
      then Inl (Thrown ''ERROR in cube_factory::create_from_json(): invalid object, missing cube_type key.'')
      else
        case get_string (jat j ''cube_type'') of
          None \<Rightarrow> Inl Json_type_error
        | Some cube_type \<Rightarrow>
            (case cube_generators cube_type of
               None \<Rightarrow> Inl Bad_function_call
             | Some generator \<Rightarrow> generator exists (\<lambda>k. create_from_json exists (jat j k)) j))"
  by pat_completeness auto
termination
  by (relation "measure (\<lambda>(exists, j). size j)") (auto simp: jat_size)

declare create_from_json.simps [simp del]

text \<open>
  An example of a graph description: a node with the discriminator \<open>d\<close> and one reducer over a
  dummy cube of 2 by 2 pixels and three time steps.
\<close>

definition dummy_json :: json where
  "dummy_json =
     JObject [(''cube_type'', JString ''dummy''),
              (''view'', JObject [(''nx'', JNumber 2), (''ny'', JNumber 2), (''nt'', JNumber 3)]),
              (''nbands'', JNumber 1),
              (''fill'', JNumber 1),
              (''chunk_size'', JArray [JNumber 1, JNumber 2, JNumber 2])]"

definition reducing_json :: "string \<Rightarrow> json" where
  "reducing_json d =
     JObject [(''cube_type'', JString d),
              (''reducer_bands'', JArray [JArray [JString ''mean'', JString ''x'']]),
              (''in_cube'', dummy_json)]"

definition dummy_node :: cube_node where
  "dummy_node =
     Dummy_cube (JObject [(''nx'', JNumber 2), (''ny'', JNumber 2), (''nt'', JNumber 3)]) 1 1 (1, 2, 2)"

section \<open>Point queries (vector_queries.cpp)\<close>

text \<open>
  The collaborators of \<open>query_points\<close>: the comparison and the transformation of spatial
  reference systems (the transformation yields nothing when it cannot be created or fails), the
  instant of a datetime string in a given unit, and \<open>cube::find_chunk_that_contains\<close>, which is
  declared in cube.h.
\<close>

record query_env =
  is_same :: "string \<Rightarrow> string \<Rightarrow> bool"
  transform :: "string \<Rightarrow> string \<Rightarrow> double list \<Rightarrow> double list \<Rightarrow> (double list \<times> double list) option"
  from_string :: "datetime_unit \<Rightarrow> string \<Rightarrow> int"
  find_chunk_that_contains :: "cube \<Rightarrow> int \<times> double \<times> double \<Rightarrow> int"

text \<open>
  Modelled from the spec: \<open>chunk_data::empty\<close> (section 3): a chunk without buffer or of size
  zero.
\<close>

definition chunk_empty :: "chunk_data \<Rightarrow> bool" where
  "chunk_empty c \<longleftrightarrow> buf c = [] \<or> sz_b c * sz_t c * sz_y c * sz_x c = 0"

text \<open>
  \<open>(int)std::floor(v)\<close>.  The conversion of NaN, of an infinity or of a number outside the
  range of \<open>int\<close> is undefined in C++; it is the smallest \<open>int\<close> here.
\<close>

definition int_of_floor :: "double \<Rightarrow> 32 word" where
  "int_of_floor v =
     (case v of
        Fin r \<Rightarrow> if - (2 ^ 31) \<le> \<lfloor>r\<rfloor> \<and> \<lfloor>r\<rfloor> < 2 ^ 31 then word_of_int \<lfloor>r\<rfloor> else word_of_int (- (2 ^ 31))
      | _ \<Rightarrow> word_of_int (- (2 ^ 31)))"

text \<open>
  The body of the loop over the points of a chunk (lines 94-111).  The operands of \<open>%\<close> are an
  \<open>int\<close> and a \<open>uint32_t\<close>, so the remainder is unsigned; the result is read as \<open>int\<close> again.
\<close>

definition read_point ::
  "cube \<Rightarrow> chunk_data \<Rightarrow> double list \<Rightarrow> double list \<Rightarrow> double list \<Rightarrow> nat \<Rightarrow> double list list \<Rightarrow> double list list" where
  "read_point c dat ix iy it p out =
     (case chunk_size c of (cst, csy, csx) \<Rightarrow>
        let iix = int_of_floor (rd ix p) mod word_of_nat csx;
            iiy = word_of_nat (sz_y dat) - 1 - (int_of_floor (rd iy p) mod word_of_nat csy);
            iit = int_of_floor (rd it p) mod word_of_nat cst
        in if sint iix < 0 \<or> unat iix \<ge> sz_x dat then out
           else if sint iiy < 0 \<or> unat iiy \<ge> sz_y dat then out
           else if sint iit < 0 \<or> unat iit \<ge> sz_t dat then out
           else map (\<lambda>ib. (out ! ib)[p := rd (buf dat)
                        (ib * sz_t dat * sz_y dat * sz_x dat + unat iit * sz_y dat * sz_x dat
                           + unat iiy * sz_x dat + unat iix)])
                    [0..<length out])"

text \<open>
  The loop over the entries of \<open>chunk_index\<close> (lines 84-112), in ascending order of the chunk
  identifier.  The second component of the state is the list of the identifiers passed to
  \<open>read_chunk\<close> so far.
\<close>

fun read_chunks ::
  "cube \<Rightarrow> double list \<Rightarrow> double list \<Rightarrow> double list \<Rightarrow> (int \<times> nat list) list
     \<Rightarrow> double list list \<times> int list \<Rightarrow> (error + double list list) \<times> int list" where
  "read_chunks c ix iy it [] s = (Inr (fst s), snd s)"
| "read_chunks c ix iy it ((cid, ps) # rest) s =
     (if cid \<ge> int (count_chunks c) then read_chunks c ix iy it rest s
      else
        case read_chunk c cid of
          Inl e \<Rightarrow> (Inl e, snd s @ [cid])
        | Inr dat \<Rightarrow>
            if chunk_empty dat then read_chunks c ix iy it rest (fst s, snd s @ [cid])
            else read_chunks c ix iy it rest (fold (read_point c dat ix iy it) ps (fst s), snd s @ [cid]))"

text \<open>
  \<open>vector_queries::query_points\<close>.  The result is what the function returns or throws,
  together with the identifiers of the chunks that it has read.
\<close>

definition query_points ::
  "query_env \<Rightarrow> cube option \<Rightarrow> double list \<Rightarrow> double list \<Rightarrow> string list \<Rightarrow> string
     \<Rightarrow> (error + double list list) \<times> int list" where
  "query_points env cube x y t srs' =
     (if length x \<noteq> length y \<or> length y \<noteq> length t
      then (Inl (Thrown ''Point coordinate vectors x, y, t must have identical length''), [])
      else if x = []
      then (Inl (Thrown ''Point coordinate vectors x, y, t must have length > 0''), [])
      else
        case cube of
          None \<Rightarrow> (Inl (Thrown ''Invalid data cube pointer''), [])
        | Some c \<Rightarrow>
            (case (if srs (st_reference c) \<noteq> srs' \<and> \<not> is_same env (srs (st_reference c)) srs'
                   then transform env (srs (st_reference c)) srs' x y
                   else Some (x, y)) of
               None \<Rightarrow>
                 (Inl (Thrown (''ERROR: coordinate transformation failed (from '' @ srs (st_reference c)
                                @ '' to '' @ srs' @ '').'')), [])
             | Some xy \<Rightarrow>
                 let r = st_reference c;
                     n = length x;
                     dts = map (\<lambda>i. from_string env (dt_unit r) (t ! i)) [0..<n];
                     ix = map (\<lambda>i. ddiv (dsub (rd (fst xy) i) (left r)) (dx r)) [0..<n];
                     iy = map (\<lambda>i. ddiv (dsub (rd (snd xy) i) (bottom r)) (dy r)) [0..<n];
                     it = map (\<lambda>i. Fin (real_of_int (tdiv (dts ! i - t0 r) (dt r)))) [0..<n];
                     chunk_of = (\<lambda>i. find_chunk_that_contains env c (dts ! i, rd (fst xy) i, rd (snd xy) i));
                     chunk_index = map (\<lambda>cid. (cid, filter (\<lambda>i. chunk_of i = cid) [0..<n]))
                                       (sort (remdups (map chunk_of [0..<n])));
                     out = replicate (length (bands c)) (replicate n NaN)
                 in read_chunks c ix iy it chunk_index (out, [])))"

text \<open>An example: \<open>plain_env\<close> needs no transformation, reads every datetime as instant 0 and
  finds every point in chunk 0.\<close>

definition plain_env :: query_env where
  "plain_env =
     \<lparr>is_same = (\<lambda>a b. True), transform = (\<lambda>a b x y. Some (x, y)),
      from_string = (\<lambda>u s. 0), find_chunk_that_contains = (\<lambda>c p. 0)\<rparr>"

section \<open>Properties of the temporal aggregation\<close>

text \<open>
  In the pixel loop of \<open>aggregation_state_mean::update\<close> the value of the image does not enter
  the new value of a cell that holds a number: the sum is formed from the cell alone,
  \<open>sum = cell * n + cell\<close>, and divided by \<open>n + 1\<close>.  Two images that both bring a number
  for the pixel give the same result.
\<close>

lemma mean_update_pixel_ignores_image:
  assumes "\<not> isnan (rd chunk (off + i))" "\<not> isnan (rd img i)" "\<not> isnan (rd img' i)"
  shows "mean_update_pixel off img i (chunk, vc) = mean_update_pixel off img' i (chunk, vc)"
  using assms by (simp add: mean_update_pixel_def Let_def)


section \<open>Properties of the rounding\<close>

lemma round_even_int [simp]: "round_even (of_int m) = m"
  by (simp add: round_even_def)

lemma round_even_near: "\<bar>of_int (round_even q) - q\<bar> \<le> 1 / 2"
  unfolding round_even_def Let_def by (auto; linarith)

lemma round_even_ge: "of_int n \<le> q \<Longrightarrow> n \<le> round_even q"
  unfolding round_even_def Let_def by (auto simp: le_floor_iff; linarith)

lemma round_even_le: "q \<le> of_int n \<Longrightarrow> round_even q \<le> n"
proof -
  assume a: "q \<le> of_int n"
  have f: "\<lfloor>q\<rfloor> \<le> n" using a by (simp add: floor_le_iff)
  show ?thesis
  proof (cases "\<lfloor>q\<rfloor> = n")
    case True
    then have "q = of_int n" using a by (metis of_int_floor_le order_antisym)
    then show ?thesis by simp
  next
    case False
    with f have "\<lfloor>q\<rfloor> + 1 \<le> n" by simp
    then show ?thesis unfolding round_even_def Let_def by auto
  qed
qed

lemma floor_log_bounds:
  assumes "0 < r"
  shows "2 powi \<lfloor>log 2 r\<rfloor> \<le> r" "r < 2 powi (\<lfloor>log 2 r\<rfloor> + 1)"
proof -
  obtain k where k: "\<lfloor>log 2 r\<rfloor> = k" by simp
  have "2 powr real_of_int k \<le> r \<and> r < 2 powr real_of_int (k + 1)"
    using floor_log_eq_powr_iff [of r 2 k] assms k by simp
  moreover have "(2 :: real) powr real_of_int k = 2 powi k"
    by (rule powr_real_of_int') simp_all
  moreover have "(2 :: real) powr real_of_int (k + 1) = 2 powi (k + 1)"
    by (rule powr_real_of_int') simp_all
  ultimately show "2 powi \<lfloor>log 2 r\<rfloor> \<le> r" "r < 2 powi (\<lfloor>log 2 r\<rfloor> + 1)"
    unfolding k by simp_all
qed

lemma pow2_less_exp:
  fixes a b :: int
  assumes "(2 :: real) powi a < 2 powi b"
  shows "a < b"
proof (rule ccontr)
  assume "\<not> a < b"
  then have "b \<le> a" by simp
  then have "(2 :: real) powi b \<le> 2 powi a" by (rule power_int_increasing) simp
  with assms show False by simp
qed

lemma ulp_exp_bounds:
  assumes "0 < r"
  shows "- 1074 \<le> ulp_exp r"
    and "r < 2 powi (ulp_exp r + 53)"
    and "2 powi (- 1022) \<le> r \<Longrightarrow> 2 powi (ulp_exp r + 52) \<le> r"
proof -
  obtain k where k: "\<lfloor>log 2 r\<rfloor> = k" by simp
  let ?k = "\<lfloor>log 2 r\<rfloor>"
  show "- 1074 \<le> ulp_exp r" by (simp add: ulp_exp_def)
  have "?k + 1 \<le> ulp_exp r + 53" by (simp add: ulp_exp_def)
  then have "(2 :: real) powi (?k + 1) \<le> 2 powi (ulp_exp r + 53)"
    by (rule power_int_increasing) simp
  with floor_log_bounds(2) [OF assms] show "r < 2 powi (ulp_exp r + 53)" by simp
  assume n: "2 powi (- 1022) \<le> r"
  with floor_log_bounds(2) [OF assms] have "(2 :: real) powi (- 1022) < 2 powi (?k + 1)" by simp
  then have "- 1022 < ?k + 1" by (rule pow2_less_exp)
  then have "ulp_exp r = ?k - 52" unfolding ulp_exp_def k by simp
  then show "2 powi (ulp_exp r + 52) \<le> r"
    using floor_log_bounds(1) [OF assms] by simp
qed

lemma ulp_exp_le:
  assumes "0 < r" "r < 2 powi (e0 + 53)" "- 1074 \<le> e0"
  shows "ulp_exp r \<le> e0"
proof -
  from floor_log_bounds(1) [OF assms(1)] assms(2)
  have "(2 :: real) powi \<lfloor>log 2 r\<rfloor> < 2 powi (e0 + 53)" by simp
  then have "\<lfloor>log 2 r\<rfloor> < e0 + 53" by (rule pow2_less_exp)
  with assms(3) show ?thesis by (simp add: ulp_exp_def)
qed

lemma ulp_exp_ge:
  assumes "0 < r" "2 powi (e0 + 52) \<le> r"
  shows "e0 \<le> ulp_exp r"
proof -
  from floor_log_bounds(2) [OF assms(1)] assms(2)
  have "(2 :: real) powi (e0 + 52) < 2 powi (\<lfloor>log 2 r\<rfloor> + 1)" by simp
  then have "e0 + 52 < \<lfloor>log 2 r\<rfloor> + 1" by (rule pow2_less_exp)
  then show ?thesis by (simp add: ulp_exp_def)
qed

lemma round_pos_exact:
  assumes "0 < m" "m < 2 ^ 53" "- 1074 \<le> e0" "e0 \<le> 971"
  shows "round_pos (of_int m * 2 powi e0) = Fin (of_int m * 2 powi e0)"
proof -
  let ?r = "of_int m * 2 powi e0 :: real"
  have pos: "0 < ?r" using assms(1) by simp
  have "of_int m < (2 :: real) ^ 53" using assms(2) by (metis of_int_less_numeral_power_cancel_iff)
  then have "?r < 2 ^ 53 * 2 powi e0" by simp
  also have "\<dots> = 2 powi (e0 + 53)" by (simp add: power_int_add)
  finally have lt: "?r < 2 powi (e0 + 53)" .
  define e where "e = ulp_exp ?r"
  have e: "e \<le> e0" unfolding e_def by (rule ulp_exp_le [OF pos lt assms(3)])
  define j where "j = nat (e0 - e)"
  have e0: "e0 = e + int j" using e by (simp add: j_def)
  have p: "(2 :: real) powi e0 = 2 powi e * 2 ^ j"
    unfolding e0 by (simp add: power_int_add)
  have r: "?r = of_int (m * 2 ^ j) * 2 powi e"
    unfolding p by simp
  then have q: "?r / 2 powi e = of_int (m * 2 ^ j)"
    by (simp add: nonzero_divide_eq_eq)
  have v: "of_int (round_even (?r / 2 powi ulp_exp ?r)) * 2 powi ulp_exp ?r = ?r"
    unfolding e_def [symmetric] q round_even_int by (simp only: r)
  have "(2 :: real) powi (e0 + 53) \<le> 2 powi 1024"
    by (rule power_int_increasing) (use assms(4) in simp_all)
  with lt have "?r < 2 ^ 1024" by simp
  then show ?thesis
    unfolding round_pos_def Let_def v by simp
qed

lemma round_pos_overflow:
  assumes "2 ^ 1024 \<le> r"
  shows "round_pos r = PInf"
proof -
  have "(0 :: real) < 2 ^ 1024" by simp
  with assms have pos: "0 < r" by linarith
  have "(2 :: real) powi (972 + 52) \<le> r" using assms by simp
  then have e: "972 \<le> ulp_exp r" by (rule ulp_exp_ge [OF pos])
  have n: "2 powi (- 1022) \<le> r"
  proof -
    have "(2 :: real) powi (- 1022) \<le> 2 powi 1024" by (rule power_int_increasing) simp_all
    with assms show ?thesis by simp
  qed
  have "2 powi (ulp_exp r + 52) \<le> r" by (rule ulp_exp_bounds(3) [OF pos n])
  then have "2 ^ 52 * 2 powi ulp_exp r \<le> r" by (simp add: power_int_add mult.commute)
  then have "of_int (2 ^ 52) \<le> r / 2 powi ulp_exp r" by (simp add: pos_le_divide_eq)
  then have "2 ^ 52 \<le> round_even (r / 2 powi ulp_exp r)" by (rule round_even_ge)
  then have "(2 :: real) ^ 52 \<le> of_int (round_even (r / 2 powi ulp_exp r))"
    by (metis numeral_power_le_of_int_cancel_iff)
  moreover have "(2 :: real) powi 972 \<le> 2 powi ulp_exp r"
    by (rule power_int_increasing) (use e in simp_all)
  ultimately have "(2 :: real) ^ 52 * 2 powi 972 \<le> of_int (round_even (r / 2 powi ulp_exp r)) * 2 powi ulp_exp r"
    by (intro mult_mono) simp_all
  moreover have "(2 :: real) ^ 52 * 2 powi 972 = 2 ^ 1024" by simp
  ultimately show ?thesis
    unfolding round_pos_def Let_def by simp
qed

lemma round_pos_cases:
  assumes "0 < r"
  shows "round_pos r = PInf \<or> (\<exists>q. round_pos r = Fin q \<and> (q = 0 \<or> 2 powi (- 1074) \<le> q) \<and> q < 2 ^ 1024)"
proof -
  define e where "e = ulp_exp r"
  define k where "k = round_even (r / 2 powi e)"
  have e: "- 1074 \<le> e" unfolding e_def by (rule ulp_exp_bounds(1) [OF assms])
  have "of_int 0 \<le> r / 2 powi e" using assms by simp
  then have k: "0 \<le> k" unfolding k_def by (rule round_even_ge)
  have low: "k = 0 \<or> 2 powi (- 1074) \<le> of_int k * (2 :: real) powi e"
  proof (cases "k = 0")
    case False
    with k have "1 \<le> k" by simp
    then have "(1 :: real) \<le> of_int k" by simp
    moreover have "(2 :: real) powi (- 1074) \<le> 2 powi e"
      by (rule power_int_increasing) (use e in simp_all)
    ultimately have "1 * (2 :: real) powi (- 1074) \<le> of_int k * 2 powi e"
      by (intro mult_mono) simp_all
    then show ?thesis by simp
  qed simp
  show ?thesis
    unfolding round_pos_def Let_def e_def [symmetric] k_def [symmetric]
    using low by auto
qed

lemma round_pos_near:
  assumes "0 < x" "2 powi (- 1022) \<le> x" "x < 2 ^ 1023"
  shows "\<exists>s. round_pos x = Fin s \<and> \<bar>s - x\<bar> \<le> x / 2 ^ 53"
proof -
  define e where "e = ulp_exp x"
  define k where "k = round_even (x / 2 powi e)"
  have p: "(0 :: real) < 2 powi e" by simp
  have "2 powi (e + 52) \<le> x" unfolding e_def by (rule ulp_exp_bounds(3) [OF assms(1,2)])
  then have u: "2 powi e \<le> x / 2 ^ 52"
    by (simp add: power_int_add pos_le_divide_eq)
  have "\<bar>of_int k - x / 2 powi e\<bar> \<le> 1 / 2" unfolding k_def by (rule round_even_near)
  then have "\<bar>of_int k - x / 2 powi e\<bar> * 2 powi e \<le> 1 / 2 * 2 powi e"
    by (intro mult_right_mono) simp_all
  moreover have "\<bar>of_int k - x / 2 powi e\<bar> * 2 powi e = \<bar>of_int k * 2 powi e - x\<bar>"
  proof -
    have "\<bar>of_int k - x / 2 powi e\<bar> * 2 powi e = \<bar>(of_int k - x / 2 powi e) * 2 powi e\<bar>"
      by (simp add: abs_mult)
    also have "(of_int k - x / 2 powi e) * 2 powi e = of_int k * 2 powi e - x"
      by (simp add: left_diff_distrib)
    finally show ?thesis .
  qed
  ultimately have "\<bar>of_int k * 2 powi e - x\<bar> \<le> 1 / 2 * 2 powi e" by simp
  also have "\<dots> \<le> 1 / 2 * (x / 2 ^ 52)" using u by simp
  also have "\<dots> = x / 2 ^ 53" by simp
  finally have near: "\<bar>of_int k * 2 powi e - x\<bar> \<le> x / 2 ^ 53" .
  have "x / 2 ^ 53 \<le> x" using assms(1) by (simp add: divide_le_eq)
  with near have "of_int k * 2 powi e \<le> 2 * x" by linarith
  moreover have "(2 :: real) ^ 1024 = 2 * 2 ^ 1023" by simp
  ultimately have "of_int k * 2 powi e < (2 :: real) ^ 1024" using assms(3) by linarith
  then show ?thesis
    unfolding round_pos_def Let_def e_def [symmetric] k_def [symmetric]
    using near by simp
qed

lemma to_double_exact:
  assumes "is_double r"
  shows "to_double r = Fin r"
proof -
  from assms obtain m e where r: "r = of_int m * 2 powi e" and m: "\<bar>m\<bar> < 2 ^ 53"
    and e: "- 1074 \<le> e" "e \<le> 971"
    by (auto simp: is_double_def)
  consider "m = 0" | "0 < m" | "m < 0" by linarith
  then show ?thesis
  proof cases
    case 1
    then show ?thesis by (simp add: r to_double_def)
  next
    case 2
    then have "0 < r" by (simp add: r)
    moreover have "m < 2 ^ 53" using m by simp
    ultimately show ?thesis
      using round_pos_exact [OF 2 _ e] by (simp add: to_double_def r)
  next
    case 3
    then have n: "r < 0" by (simp add: r mult_neg_pos)
    have "0 < - m" "- m < 2 ^ 53" using 3 m by simp_all
    from round_pos_exact [OF this e] have "round_pos (- r) = Fin (- r)" by (simp add: r)
    then show ?thesis using n by (simp add: to_double_def)
  qed
qed

lemma is_double_int:
  assumes "\<bar>k\<bar> \<le> 2 ^ 53"
  shows "is_double (of_int k)"
proof (cases "\<bar>k\<bar> < 2 ^ 53")
  case True
  have "real_of_int k = of_int k * 2 powi 0" by simp
  with True show ?thesis unfolding is_double_def by fastforce
next
  case False
  with assms have "\<bar>k\<bar> = 2 ^ 53" by simp
  then have "k = 2 * 2 ^ 52 \<or> k = 2 * (- (2 ^ 52))" by (simp add: abs_if split: if_splits)
  then obtain m :: int where m: "k = 2 * m" "\<bar>m\<bar> < 2 ^ 53" by auto
  have "real_of_int k = of_int m * 2 powi 1" by (simp add: m(1))
  with m(2) show ?thesis unfolding is_double_def by fastforce
qed

lemma is_double_dyadic:
  assumes "\<bar>k\<bar> < 2 ^ 53" "j \<le> 1074"
  shows "is_double (of_int k / 2 ^ j)"
proof -
  have "real_of_int k / 2 ^ j = of_int k * 2 powi (- int j)"
    by (simp add: power_int_minus field_simps)
  moreover have "- 1074 \<le> - int j" "- int j \<le> 971" using assms(2) by simp_all
  ultimately show ?thesis unfolding is_double_def using assms(1) by blast
qed

lemma is_double_scaled:
  assumes "\<bar>k\<bar> < 2 ^ 53" "j \<le> 971"
  shows "is_double (of_int k * 2 ^ j)"
proof -
  have "real_of_int k * 2 ^ j = of_int k * 2 powi (int j)" by simp
  moreover have "- 1074 \<le> int j" "int j \<le> 971" using assms(2) by simp_all
  ultimately show ?thesis unfolding is_double_def using assms(1) by blast
qed

lemma to_double_overflow:
  assumes "2 ^ 1024 \<le> r"
  shows "to_double r = PInf"
proof -
  have "(0 :: real) < 2 ^ 1024" by simp
  with assms have "0 < r" by linarith
  then show ?thesis using round_pos_overflow [OF assms] by (simp add: to_double_def)
qed

lemma to_double_overflow_neg:
  assumes "r \<le> - (2 ^ 1024)"
  shows "to_double r = NInf"
proof -
  from assms have b: "2 ^ 1024 \<le> - r" by simp
  have "(0 :: real) < 2 ^ 1024" by simp
  with b have "r < 0" by linarith
  then show ?thesis using round_pos_overflow [OF b] by (simp add: to_double_def)
qed

lemma to_double_cases:
  "to_double r = PInf \<and> 0 < r \<or> to_double r = NInf \<and> r < 0
   \<or> (\<exists>q. to_double r = Fin q \<and> (q = 0 \<or> 2 powi (- 1074) \<le> \<bar>q\<bar>) \<and> \<bar>q\<bar> < 2 ^ 1024
          \<and> (0 \<le> r \<longrightarrow> 0 \<le> q) \<and> (r \<le> 0 \<longrightarrow> q \<le> 0))"
proof -
  consider "r = 0" | "0 < r" | "r < 0" by linarith
  then show ?thesis
  proof cases
    case 1
    then show ?thesis by (simp add: to_double_def)
  next
    case 2
    have z: "(0 :: real) \<le> 2 powi (- 1074)" by simp
    from round_pos_cases [OF 2] show ?thesis
    proof
      assume "round_pos r = PInf"
      then show ?thesis using 2 by (simp add: to_double_def)
    next
      assume "\<exists>q. round_pos r = Fin q \<and> (q = 0 \<or> 2 powi (- 1074) \<le> q) \<and> q < 2 ^ 1024"
      then obtain q where q: "round_pos r = Fin q" "q = 0 \<or> 2 powi (- 1074) \<le> q" "q < 2 ^ 1024"
        by blast
      from q(2) z have "0 \<le> q" by linarith
      then show ?thesis using 2 q by (simp add: to_double_def)
    qed
  next
    case 3
    then have p: "0 < - r" by simp
    have z: "(0 :: real) \<le> 2 powi (- 1074)" by simp
    from round_pos_cases [OF p] show ?thesis
    proof
      assume "round_pos (- r) = PInf"
      then show ?thesis using 3 by (simp add: to_double_def)
    next
      assume "\<exists>q. round_pos (- r) = Fin q \<and> (q = 0 \<or> 2 powi (- 1074) \<le> q) \<and> q < 2 ^ 1024"
      then obtain q where q: "round_pos (- r) = Fin q" "q = 0 \<or> 2 powi (- 1074) \<le> q" "q < 2 ^ 1024"
        by blast
      from q(2) z have "0 \<le> q" by linarith
      then show ?thesis using 3 q by (simp add: to_double_def)
    qed
  qed
qed

lemma sqrt_rounded:
  assumes "q = 0 \<or> 2 powi (- 1074) \<le> q" "q < 2 ^ 1024"
  shows "\<exists>s\<ge>0. to_double (sqrt q) = Fin s \<and> \<bar>s * s - q\<bar> \<le> q / 2 ^ 51"
proof (cases "q = 0")
  case True
  then show ?thesis by (simp add: to_double_def)
next
  case False
  with assms(1) have low: "2 powi (- 1074) \<le> q" by simp
  have "(0 :: real) < 2 powi (- 1074)" by simp
  with low have qpos: "0 < q" by linarith
  let ?x = "sqrt q"
  have xpos: "0 < ?x" using qpos by simp
  have "((2 :: real) powi (- 537))\<^sup>2 = 2 powi (- 1074)"
    by (simp add: power2_eq_square power_int_add [symmetric])
  with low have "((2 :: real) powi (- 537))\<^sup>2 \<le> q" by simp
  then have "2 powi (- 537) \<le> ?x" by (rule real_le_rsqrt)
  moreover have "(2 :: real) powi (- 1022) \<le> 2 powi (- 537)"
    by (rule power_int_increasing) simp_all
  ultimately have n: "2 powi (- 1022) \<le> ?x" by simp
  have "q < (2 ^ 512)\<^sup>2" using assms(2) by simp
  then have "?x < 2 ^ 512" by (intro real_less_lsqrt) simp_all
  moreover have "(2 :: real) ^ 512 \<le> 2 ^ 1023" by simp
  ultimately have up: "?x < 2 ^ 1023" by linarith
  from round_pos_near [OF xpos n up] obtain s where s: "round_pos ?x = Fin s"
    and near: "\<bar>s - ?x\<bar> \<le> ?x / 2 ^ 53" by blast
  have "?x / 2 ^ 53 \<le> ?x" using xpos by (simp add: divide_le_eq)
  with near have s0: "0 \<le> s" and s2: "s \<le> 2 * ?x" by linarith+
  have xx: "?x * ?x = q" using qpos by (simp add: less_imp_le)
  have "s * s - q = (s - ?x) * (s + ?x)" using qpos by (simp add: algebra_simps)
  then have "\<bar>s * s - q\<bar> = \<bar>s - ?x\<bar> * \<bar>s + ?x\<bar>" by (simp add: abs_mult)
  also have "\<dots> \<le> (?x / 2 ^ 53) * (3 * ?x)"
    using near s0 s2 xpos by (intro mult_mono) simp_all
  also have "\<dots> = 3 * q / 2 ^ 53" using qpos by simp
  also have "\<dots> \<le> q / 2 ^ 51" using qpos by simp
  finally have "\<bar>s * s - q\<bar> \<le> q / 2 ^ 51" .
  moreover have "to_double ?x = Fin s" using s xpos by (simp add: to_double_def)
  ultimately show ?thesis using s0 by blast
qed

text \<open>The result of a rounding is a double.\<close>

lemma round_pos_is_double:
  assumes "0 < r" "round_pos r = Fin q"
  shows "is_double q"
proof -
  define e where "e = ulp_exp r"
  define k where "k = round_even (r / 2 powi e)"
  have q: "q = of_int k * 2 powi e" and small: "of_int k * 2 powi e < (2 :: real) ^ 1024"
    using assms(2) unfolding round_pos_def Let_def e_def [symmetric] k_def [symmetric]
    by (simp_all split: if_splits)
  have e: "- 1074 \<le> e" unfolding e_def by (rule ulp_exp_bounds(1) [OF assms(1)])
  have "of_int 0 \<le> r / 2 powi e" using assms(1) by simp
  then have k0: "0 \<le> k" unfolding k_def by (rule round_even_ge)
  have "r < 2 powi (e + 53)" unfolding e_def by (rule ulp_exp_bounds(2) [OF assms(1)])
  then have "r < 2 ^ 53 * 2 powi e" by (simp add: power_int_add mult.commute)
  then have "r / 2 powi e \<le> of_int (2 ^ 53)" by (simp add: pos_divide_le_eq)
  then have k53: "k \<le> 2 ^ 53" unfolding k_def by (rule round_even_le)
  show ?thesis
  proof (cases "k = 0")
    case True
    have "q = of_int 0 * 2 powi 0" by (simp add: q True)
    then show ?thesis unfolding is_double_def by fastforce
  next
    case False
    with k0 have k1: "1 \<le> k" by simp
    then have "(1 :: real) \<le> of_int k" by simp
    then have "1 * (2 :: real) powi e \<le> of_int k * 2 powi e"
      by (intro mult_right_mono) simp_all
    then have "(2 :: real) powi e \<le> of_int k * 2 powi e" by simp
    from this small have "(2 :: real) powi e < 2 ^ 1024" by (rule le_less_trans)
    then have "(2 :: real) powi e < 2 powi 1024" by simp
    then have e1024: "e < 1024" by (rule pow2_less_exp)
    show ?thesis
    proof (cases "k < 2 ^ 53")
      case True
      have "e \<le> 971"
      proof (rule ccontr)
        assume "\<not> e \<le> 971"
        then have big: "972 \<le> e" by simp
        then have "e = \<lfloor>log 2 r\<rfloor> - 52" unfolding e_def ulp_exp_def by linarith
        then have "2 powi (e + 52) \<le> r" using floor_log_bounds(1) [OF assms(1)] by simp
        moreover have "(2 :: real) powi 1024 \<le> 2 powi (e + 52)"
          by (rule power_int_increasing) (use big in simp_all)
        ultimately have "2 ^ 1024 \<le> r" by simp
        then have "round_pos r = PInf" by (rule round_pos_overflow)
        with assms(2) show False by simp
      qed
      with k0 True e q show ?thesis unfolding is_double_def by fastforce
    next
      case False
      with k53 have k: "k = 2 * 2 ^ 52" by simp
      have "(2 :: real) ^ 53 * 2 powi e < 2 powi 1024" using small by (simp add: k)
      then have "(2 :: real) powi (e + 53) < 2 powi 1024" by (simp add: power_int_add mult.commute)
      then have "e + 53 < 1024" by (rule pow2_less_exp)
      then have e': "e + 1 \<le> 971" by simp
      have "q = of_int (2 ^ 52) * 2 powi (e + 1)" by (simp add: q k power_int_add)
      moreover have "\<bar>2 ^ 52 :: int\<bar> < 2 ^ 53" by simp
      moreover have "- 1074 \<le> e + 1" using e by simp
      ultimately show ?thesis unfolding is_double_def using e' by blast
    qed
  qed
qed

lemma is_double_minus: "is_double q \<Longrightarrow> is_double (- q)"
proof -
  assume "is_double q"
  then obtain m e where "q = of_int m * 2 powi e" "\<bar>m\<bar> < 2 ^ 53" "- 1074 \<le> e" "e \<le> 971"
    by (auto simp: is_double_def)
  then have "- q = of_int (- m) * 2 powi e" "\<bar>- m\<bar> < 2 ^ 53" by simp_all
  with \<open>- 1074 \<le> e\<close> \<open>e \<le> 971\<close> show ?thesis unfolding is_double_def by blast
qed

lemma to_double_is_double:
  assumes "to_double r = Fin q"
  shows "is_double q"
proof -
  consider "r = 0" | "0 < r" | "r < 0" by linarith
  then show ?thesis
  proof cases
    case 1
    with assms have "q = of_int 0 * 2 powi 0" by (simp add: to_double_def)
    then show ?thesis unfolding is_double_def by fastforce
  next
    case 2
    with assms have "round_pos r = Fin q" by (simp add: to_double_def)
    with 2 show ?thesis by (rule round_pos_is_double)
  next
    case 3
    with assms have "dneg (round_pos (- r)) = Fin q" by (simp add: to_double_def)
    then have "round_pos (- r) = Fin (- q)" by (cases "round_pos (- r)") simp_all
    with 3 have "is_double (- q)" by (intro round_pos_is_double [of "- r"]) simp_all
    then have "is_double (- (- q))" by (rule is_double_minus)
    then show ?thesis by simp
  qed
qed

lemma to_double_zero [simp]: "to_double 0 = Fin 0"
  by (simp add: to_double_def)

lemma to_double_int:
  assumes "\<bar>k\<bar> \<le> 2 ^ 53"
  shows "to_double (of_int k) = Fin (of_int k)"
  by (rule to_double_exact) (rule is_double_int [OF assms])

lemma to_double_nat:
  assumes "n \<le> 2 ^ 53"
  shows "to_double (real n) = Fin (real n)"
proof -
  have "int n \<le> int (2 ^ 53)" using assms by (simp only: of_nat_le_iff)
  then have "\<bar>int n\<bar> \<le> 2 ^ 53" by simp
  from to_double_int [OF this] show ?thesis by simp
qed

lemma to_double_one [simp]: "to_double 1 = Fin 1"
proof -
  have "\<bar>1 :: int\<bar> \<le> 2 ^ 53" by simp
  from to_double_int [OF this] show ?thesis by simp
qed

lemma to_double_numeral [simp]:
  assumes "numeral n \<le> (2 ^ 53 :: int)"
  shows "to_double (numeral n) = Fin (numeral n)"
proof -
  have "\<bar>numeral n :: int\<bar> \<le> 2 ^ 53" using assms by simp
  from to_double_int [OF this] show ?thesis by simp
qed

lemma to_double_neg_numeral [simp]:
  assumes "numeral n \<le> (2 ^ 53 :: int)"
  shows "to_double (- numeral n) = Fin (- numeral n)"
proof -
  have "\<bar>- numeral n :: int\<bar> \<le> 2 ^ 53" using assms by simp
  from to_double_int [OF this] show ?thesis by simp
qed

lemma to_double_half [simp]: "to_double (1 / 2) = Fin (1 / 2)"
proof -
  have "\<bar>1 :: int\<bar> < 2 ^ 53" "(1 :: nat) \<le> 1074" by simp_all
  from to_double_exact [OF is_double_dyadic [OF this]] show ?thesis by simp
qed

lemma to_double_halves [simp]:
  assumes "numeral n < (2 ^ 53 :: int)"
  shows "to_double (numeral n / 2) = Fin (numeral n / 2)"
proof -
  have "\<bar>numeral n :: int\<bar> < 2 ^ 53" "(1 :: nat) \<le> 1074" using assms by simp_all
  from to_double_exact [OF is_double_dyadic [OF this]] show ?thesis by simp
qed

lemma dadd_nan [simp]: "dadd x NaN = NaN"
  by (cases x) simp_all

lemma dmul_nan [simp]: "dmul x NaN = NaN"
  by (cases x) simp_all

lemma ddiv_nan [simp]: "ddiv x NaN = NaN"
  by (cases x) simp_all

lemma ddiv_range:
  assumes "ddiv a b = Fin q"
  shows "(q = 0 \<or> 2 powi (- 1074) \<le> \<bar>q\<bar>) \<and> \<bar>q\<bar> < 2 ^ 1024"
proof (cases a)
  case (Fin x)
  show ?thesis
  proof (cases b)
    case (Fin y)
    with \<open>a = Fin x\<close> assms have "to_double (x / y) = Fin q"
      by (simp split: if_splits)
    with to_double_cases [of "x / y"] show ?thesis by auto
  qed (use assms \<open>a = Fin x\<close> in simp_all)
next
  case PInf
  with assms show ?thesis by (cases b) (simp_all split: if_splits)
next
  case NInf
  with assms show ?thesis by (cases b) (simp_all split: if_splits)
qed (use assms in simp)

lemma dsqrt_tolerance:
  assumes "ddiv a b = Fin q" "0 \<le> q"
  shows "\<exists>s\<ge>0. dsqrt (ddiv a b) = Fin s \<and> \<bar>s * s - q\<bar> \<le> q / 2 ^ 51"
proof -
  from ddiv_range [OF assms(1)] assms(2)
  have "q = 0 \<or> 2 powi (- 1074) \<le> q" "q < 2 ^ 1024" by auto
  from sqrt_rounded [OF this] assms show ?thesis by simp
qed
text \<open>The operations return doubles, whatever their arguments are.\<close>

lemma arithmetic_is_double:
  "dadd a b = Fin q \<Longrightarrow> is_double q"
  "dmul a b = Fin q \<Longrightarrow> is_double q"
  "ddiv a b = Fin q \<Longrightarrow> is_double q"
  "dsqrt a = Fin q \<Longrightarrow> is_double q"
proof -
  have zero: "is_double 0"
    using is_double_int [of 0] by simp
  show "dadd a b = Fin q \<Longrightarrow> is_double q"
    by (cases a; cases b) (simp_all add: to_double_is_double)
  show "dmul a b = Fin q \<Longrightarrow> is_double q"
    by (cases a; cases b) (simp_all add: to_double_is_double inf_times_def split: if_splits)
  show "ddiv a b = Fin q \<Longrightarrow> is_double q"
    using zero by (cases a; cases b) (auto simp: to_double_is_double split: if_splits)
  show "dsqrt a = Fin q \<Longrightarrow> is_double q"
    by (cases a) (simp_all add: to_double_is_double split: if_splits)
qed

text \<open>
  Two sums that are not exact: \<open>2^53 + 1\<close> lies halfway between the doubles \<open>2^53\<close> and
  \<open>2^53 + 2\<close> and goes to the even one, and \<open>2^1023 + 2^1023\<close> overflows.
\<close>

lemma rounding_examples:
  "dadd (Fin (2 ^ 53)) (Fin 1) = Fin (2 ^ 53)"
  "dadd (Fin (2 ^ 1023)) (Fin (2 ^ 1023)) = PInf"
proof -
  let ?r = "2 ^ 53 + 1 :: real"
  have "(2 :: real) powr real_of_int 53 \<le> ?r \<and> ?r < 2 powr real_of_int (53 + 1)"
    by (simp add: powr_realpow [symmetric] del: powr_numeral) 
  then have "\<lfloor>log 2 ?r\<rfloor> = 53"
    by (subst floor_log_eq_powr_iff) simp_all
  then have e: "ulp_exp ?r = 1" by (simp add: ulp_exp_def)
  have q: "?r / 2 powi 1 = of_int (2 ^ 52) + 1 / 2" by simp
  have "round_even (of_int (2 ^ 52) + 1 / 2) = 2 ^ 52"
    unfolding round_even_def Let_def by (simp add: floor_add_int)
  then have "round_pos ?r = Fin (2 ^ 53)"
    unfolding round_pos_def Let_def e q by simp
  then show "dadd (Fin (2 ^ 53)) (Fin 1) = Fin (2 ^ 53)"
    by (simp add: to_double_def)
  have "(2 :: real) ^ 1024 \<le> 2 ^ 1023 + 2 ^ 1023" by simp
  then show "dadd (Fin (2 ^ 1023)) (Fin (2 ^ 1023)) = PInf"
    using to_double_overflow by simp
qed

section \<open>Properties of the reducers\<close>


section \<open>Buffers and the iteration over time slots\<close>

lemma rd_wr: "rd (wr d j x) i = (if i = j \<and> j < length d then x else rd d i)"
  by (simp add: rd_def wr_def)

lemma length_wr [simp]: "length (wr d j x) = length d"
  by (simp add: wr_def)

lemma fold_filter_values_apply:
  "fold (\<lambda>ixy s. let v = g ixy in if \<not> isnan v then body v s else s) xs s
     = fold body (filter (\<lambda>v. \<not> isnan v) (map g xs)) s"
  by (induction xs arbitrary: s) (simp_all add: Let_def)

lemma fold_filter_values:
  "fold (\<lambda>ixy s. let v = g ixy in if \<not> isnan v then body v s else s) xs
     = fold body (filter (\<lambda>v. \<not> isnan v) (map g xs))"
  by (rule ext) (rule fold_filter_values_apply)

lemma fold_one_slot:
  assumes inv: "\<And>it' v s. I s \<Longrightarrow> I (body it' v s)"
      and other: "\<And>it' v s. I s \<Longrightarrow> it' \<noteq> it \<Longrightarrow> P (body it' v s) = P s"
      and same: "\<And>v s. I s \<Longrightarrow> P (body it v s) = g v (P s)"
      and "I s"
  shows "I (fold (body it') vs s) \<and>
         P (fold (body it') vs s) = (if it' = it then fold g vs (P s) else P s)"
  using \<open>I s\<close>
proof (induction vs arbitrary: s)
  case Nil
  then show ?case by simp
next
  case (Cons v vs)
  from Cons.prems have "I (body it' v s)" by (rule inv)
  from Cons.IH [OF this] show ?case
    using Cons.prems by (simp add: other same)
qed

lemma fold_slots:
  assumes inv: "\<And>it' v s. I s \<Longrightarrow> I (body it' v s)"
      and other: "\<And>it' v s. I s \<Longrightarrow> it' \<noteq> it \<Longrightarrow> P (body it' v s) = P s"
      and same: "\<And>v s. I s \<Longrightarrow> P (body it v s) = g v (P s)"
      and "I s" and "distinct its"
  shows "I (fold (\<lambda>it'. fold (body it') (vals it')) its s) \<and>
         P (fold (\<lambda>it'. fold (body it') (vals it')) its s)
           = fold g (if it \<in> set its then vals it else []) (P s)"
  using \<open>I s\<close> \<open>distinct its\<close>
proof (induction its arbitrary: s)
  case Nil
  then show ?case by simp
next
  case (Cons j its)
  note step = fold_one_slot [where I = I and body = body and P = P and g = g and it = it,
      OF inv other same Cons.prems(1), of j "vals j"]
  from step have I': "I (fold (body j) (vals j) s)" by simp
  from Cons.prems(2) have d: "distinct its" and nj: "j \<notin> set its" by simp_all
  from Cons.IH [OF I' d] step nj show ?case by auto
qed

lemma for_each_value_slot:
  assumes inv: "\<And>it' v s. I s \<Longrightarrow> I (body it' v s)"
      and other: "\<And>it' v s. I s \<Longrightarrow> it' \<noteq> it \<Longrightarrow> P (body it' v s) = P s"
      and same: "\<And>v s. I s \<Longrightarrow> P (body it v s) = g v (P s)"
      and "I s"
  shows "I (for_each_value b bi body s) \<and>
         P (for_each_value b bi body s) = fold g (slot_values b bi it) (P s)"
proof -
  have eq: "for_each_value b bi body s
      = fold (\<lambda>it'. fold (body it')
            (filter (\<lambda>v. \<not> isnan v) (map (in_value b bi it') [0..<sz_y b * sz_x b])))
          [0..<sz_t b] s"
    by (simp only: for_each_value_def fold_filter_values)
  show ?thesis
    unfolding eq
    using fold_slots [where I = I and body = body and P = P and g = g and it = it
        and vals = "\<lambda>it'. filter (\<lambda>v. \<not> isnan v) (map (in_value b bi it') [0..<sz_y b * sz_x b])"
        and its = "[0..<sz_t b]" and s = s, OF inv other same \<open>I s\<close>]
    by (simp add: slot_values_def)
qed

lemma chunks_slot:
  assumes inv: "\<And>it' v s. I s \<Longrightarrow> I (body it' v s)"
      and other: "\<And>it' v s. I s \<Longrightarrow> it' \<noteq> it \<Longrightarrow> P (body it' v s) = P s"
      and same: "\<And>v s. I s \<Longrightarrow> P (body it v s) = g v (P s)"
      and "I s"
  shows "I (fold (\<lambda>b. for_each_value b bi body) chunks s) \<and>
         P (fold (\<lambda>b. for_each_value b bi body) chunks s)
           = fold g (all_slot_values chunks bi it) (P s)"
  using \<open>I s\<close>
proof (induction chunks arbitrary: s)
  case Nil
  then show ?case by (simp add: all_slot_values_def)
next
  case (Cons b chunks)
  note step = for_each_value_slot [where I = I and body = body and P = P and g = g and it = it,
      OF inv other same Cons.prems, of b bi]
  from step have I': "I (for_each_value b bi body s)" by simp
  from Cons.IH [OF I'] step show ?case
    by (simp add: all_slot_values_def)
qed

lemma fold_cells:
  "distinct its \<Longrightarrow>
   length (fold (\<lambda>it d. wr d (k + it) (F it (rd d (k + it)))) its d) = length d \<and>
   rd (fold (\<lambda>it d. wr d (k + it) (F it (rd d (k + it)))) its d) (k + i)
     = (if i \<in> set its \<and> k + i < length d then F i (rd d (k + i)) else rd d (k + i))"
proof (induction its arbitrary: d)
  case Nil
  then show ?case by simp
next
  case (Cons j its)
  then show ?case by (auto simp: rd_wr)
qed

lemma out_cell_inj: "out_cell a bo it' = out_cell a bo it \<longleftrightarrow> it' = it"
  by (simp add: out_cell_def)

lemma out_cell_buf [simp]: "out_cell (a\<lparr>buf := d\<rparr>) bo it = out_cell a bo it"
  by (simp add: out_cell_def sz_t_def sz_y_def sz_x_def)

lemma out_cell_fin_cell: "sz_y a = 1 \<Longrightarrow> sz_x a = 1 \<Longrightarrow> out_cell a bo it = fin_cell a bo it"
  by (simp add: out_cell_def fin_cell_def)

lemma init_band_cell:
  assumes "it < sz_t a" "fin_cell a bo it < length (buf a)"
  shows "rd (buf (init_band a bo v)) (fin_cell a bo it) = v"
    and "length (buf (init_band a bo v)) = length (buf a)"
    and "size_btyx (init_band a bo v) = size_btyx a"
  using fold_cells [of "[0..<sz_t a]" "bo * sz_t a" "\<lambda>it x. v" "buf a" it] assms
  by (simp_all add: init_band_def fin_cell_def)

section \<open>sum and count\<close>

lemma sum_fold_normal:
  "fold (\<lambda>b a'. sum_combine r a' b) chunks (a\<lparr>buf := d\<rparr>)
     = a\<lparr>buf := fold (\<lambda>b. for_each_value b (band_idx_in r)
          (\<lambda>it v d. wr d (out_cell a (band_idx_out r) it) (dadd (rd d (out_cell a (band_idx_out r) it)) v)))
          chunks d\<rparr>"
  by (induction chunks arbitrary: d) (simp_all add: sum_combine_def)

lemma sum_run_cell:
  assumes "sz_y a = 1" "sz_x a = 1" "it < sz_t a" "fin_cell a bo it < length (buf a)"
  shows "result_cell (sum_run a bi bo chunks) bo it
           = fold (\<lambda>v x. dadd x v) (all_slot_values chunks bi it) (Fin 0)"
proof -
  let ?a0 = "init_band a bo (Fin 0)"
  let ?w = "fin_cell a bo it"
  let ?body = "\<lambda>it v d. wr d (out_cell ?a0 bo it) (dadd (rd d (out_cell ?a0 bo it)) v)"
  have sz: "size_btyx ?a0 = size_btyx a" by (simp add: init_band_def)
  have w: "out_cell ?a0 bo it = ?w"
    using assms(1,2) by (simp add: out_cell_def fin_cell_def sz_t_def sz_y_def sz_x_def sz)
  have fw: "fin_cell (x\<lparr>buf := e\<rparr>) bo it = fin_cell x bo it" for x :: chunk_data and e
    by (simp add: fin_cell_def sz_t_def)
  have fa: "fin_cell ?a0 bo it = ?w" by (simp add: fin_cell_def sz_t_def sz)
  have run: "sum_run a bi bo chunks
      = ?a0\<lparr>buf := fold (\<lambda>b. for_each_value b bi ?body) chunks (buf ?a0)\<rparr>"
    using sum_fold_normal [where r = "\<lparr>band_idx_in = bi, band_idx_out = bo\<rparr>"
        and chunks = chunks and a = ?a0 and d = "buf ?a0"]
    by (simp add: sum_run_def sum_init_def)
  have I0: "?w < length (buf ?a0)"
    using init_band_cell(2) [OF assms(3,4)] assms(4) by simp
  have "rd (fold (\<lambda>b. for_each_value b bi ?body) chunks (buf ?a0)) ?w
      = fold (\<lambda>v x. dadd x v) (all_slot_values chunks bi it) (rd (buf ?a0) ?w)"
    using chunks_slot [where I = "\<lambda>d. ?w < length d" and P = "\<lambda>d. rd d ?w"
        and g = "\<lambda>v x. dadd x v" and it = it and body = ?body and s = "buf ?a0"
        and bi = bi and chunks = chunks] I0
    by (simp add: rd_wr out_cell_inj w [symmetric])
  then show ?thesis
    by (simp add: result_cell_def run fw fa init_band_cell(1) [OF assms(3,4)])
qed


lemma finalize_cell:
  assumes "it < sz_t a" "fin_cell a bo it < length d"
  shows "rd (fold (\<lambda>it d. wr d (fin_cell a bo it) (F it (rd d (fin_cell a bo it)))) [0..<sz_t a] d)
            (fin_cell a bo it) = F it (rd d (fin_cell a bo it))"
  using fold_cells [of "[0..<sz_t a]" "bo * sz_t a" F d it] assms
  by (simp add: fin_cell_def)

lemma fin_cell_buf [simp]: "fin_cell (a\<lparr>buf := d\<rparr>) bo it = fin_cell a bo it"
  by (simp add: fin_cell_def sz_t_def)

lemma sz_t_buf [simp]: "sz_t (a\<lparr>buf := d\<rparr>) = sz_t a"
  by (simp add: sz_t_def)

lemma init_band_geometry [simp]:
  "fin_cell (init_band a bo v) bo' it = fin_cell a bo' it"
  "out_cell (init_band a bo v) bo' it = out_cell a bo' it"
  "sz_t (init_band a bo v) = sz_t a"
  by (simp_all add: init_band_def)

lemma count_fold_normal:
  "fold (\<lambda>b a'. count_combine r a' b) chunks (a\<lparr>buf := d\<rparr>)
     = a\<lparr>buf := fold (\<lambda>b. for_each_value b (band_idx_in r)
          (\<lambda>it v d. wr d (out_cell a (band_idx_out r) it) (dadd (rd d (out_cell a (band_idx_out r) it)) (Fin 1))))
          chunks d\<rparr>"
  by (induction chunks arbitrary: d) (simp_all add: count_combine_def)

lemma count_run_cell:
  assumes "sz_y a = 1" "sz_x a = 1" "it < sz_t a" "fin_cell a bo it < length (buf a)"
  shows "result_cell (count_run a bi bo chunks) bo it
           = fold (\<lambda>v x. dadd x (Fin 1)) (all_slot_values chunks bi it) (Fin 0)"
proof -
  let ?a0 = "init_band a bo (Fin 0)"
  let ?w = "fin_cell a bo it"
  let ?body = "\<lambda>it v d. wr d (out_cell ?a0 bo it) (dadd (rd d (out_cell ?a0 bo it)) (Fin 1))"
  have w: "out_cell ?a0 bo it = ?w"
    using assms(1,2) by (simp add: out_cell_fin_cell)
  have run: "count_run a bi bo chunks
      = ?a0\<lparr>buf := fold (\<lambda>b. for_each_value b bi ?body) chunks (buf ?a0)\<rparr>"
    using count_fold_normal [where r = "\<lparr>band_idx_in = bi, band_idx_out = bo\<rparr>"
        and chunks = chunks and a = ?a0 and d = "buf ?a0"]
    by (simp add: count_run_def count_init_def)
  have I0: "?w < length (buf ?a0)"
    using init_band_cell(2) [OF assms(3,4)] assms(4) by simp
  have "rd (fold (\<lambda>b. for_each_value b bi ?body) chunks (buf ?a0)) ?w
      = fold (\<lambda>v x. dadd x (Fin 1)) (all_slot_values chunks bi it) (rd (buf ?a0) ?w)"
    using chunks_slot [where I = "\<lambda>d. ?w < length d" and P = "\<lambda>d. rd d ?w"
        and g = "\<lambda>v x. dadd x (Fin 1)" and it = it and body = ?body and s = "buf ?a0"
        and bi = bi and chunks = chunks] I0
    by (simp add: rd_wr out_cell_inj w [symmetric] del: init_band_geometry)
  then show ?thesis
    by (simp add: result_cell_def run init_band_cell(1) [OF assms(3,4)])
qed

section \<open>mean\<close>

lemma rdc_update: "rdc (c[j := x]) i = (if i = j \<and> j < length c then x else rdc c i)"
  by (simp add: rdc_def)

lemma rdc_replicate_zero [simp]: "rdc (replicate n 0) i = 0"
  by (simp add: rdc_def)

lemma mean_fold_normal:
  "fold (\<lambda>b (a', r'). mean_combine r' a' b) chunks (a\<lparr>buf := d\<rparr>, r\<lparr>mean_count := c\<rparr>)
     = (case fold (\<lambda>b. for_each_value b (band_idx_in r)
          (\<lambda>it v (d, c). (wr d (out_cell a (band_idx_out r) it) (dadd (rd d (out_cell a (band_idx_out r) it)) v),
                           c[it := rdc c it + 1])))
          chunks (d, c)
        of (d', c') \<Rightarrow> (a\<lparr>buf := d'\<rparr>, r\<lparr>mean_count := c'\<rparr>))"
  by (induction chunks arbitrary: d c) (simp_all add: mean_combine_def split: prod.splits)

lemma mean_finalize_cell:
  assumes "it < sz_t a" "fin_cell a (band_idx_out r) it < length (buf a)"
  shows "result_cell (mean_finalize r a) (band_idx_out r) it
           = (if 0 < rdc (mean_count r) it
              then ddiv (rd (buf a) (fin_cell a (band_idx_out r) it)) (of_u32 (rdc (mean_count r) it))
              else NaN)"
  using finalize_cell [where a = a and bo = "band_idx_out r" and it = it and d = "buf a"
      and F = "\<lambda>it x. if 0 < rdc (mean_count r) it then ddiv x (of_u32 (rdc (mean_count r) it)) else NaN"]
    assms
  by (simp add: result_cell_def mean_finalize_def)

lemma mean_run_cell:
  assumes "sz_y a = 1" "sz_x a = 1" "it < sz_t a" "fin_cell a bo it < length (buf a)"
  shows "result_cell (mean_run a bi bo chunks) bo it
           = (case fold mean_step (all_slot_values chunks bi it) (Fin 0, 0)
              of (x, n) \<Rightarrow> if 0 < n then ddiv x (of_u32 n) else NaN)"
proof -
  let ?a0 = "init_band a bo (Fin 0)"
  let ?r0 = "\<lparr>band_idx_in = bi, band_idx_out = bo, mean_count = replicate (sz_t a) 0\<rparr>"
  let ?w = "fin_cell a bo it"
  let ?body = "\<lambda>it v (d, c). (wr d (out_cell ?a0 bo it) (dadd (rd d (out_cell ?a0 bo it)) v),
                                c[it := rdc c it + 1])"
  let ?s = "fold (\<lambda>b. for_each_value b bi ?body) chunks (buf ?a0, replicate (sz_t a) 0)"
  have w: "out_cell a bo it = ?w"
    using assms(1,2) by (simp add: out_cell_fin_cell)
  have run: "fold (\<lambda>b (a', r'). mean_combine r' a' b) chunks (mean_init a bi bo)
      = (case ?s of (d', c') \<Rightarrow> (?a0\<lparr>buf := d'\<rparr>, ?r0\<lparr>mean_count := c'\<rparr>))"
    using mean_fold_normal [where r = ?r0 and chunks = chunks and a = ?a0 and d = "buf ?a0"
        and c = "replicate (sz_t a) 0"]
    by (simp add: mean_init_def)
  have I0: "?w < length (buf ?a0)"
    using init_band_cell(2) [OF assms(3,4)] assms(4) by simp
  let ?I = "\<lambda>(d, c). ?w < length d \<and> it < length (c :: 32 word list)"
  let ?P = "\<lambda>(d, c). (rd d ?w, rdc c it)"
  have inv: "?I (?body it' v s)" if "?I s" for it' v s
    using that by (cases s) simp
  have other: "?P (?body it' v s) = ?P s" if "?I s" "it' \<noteq> it" for it' v s
    using that by (cases s) (simp add: rd_wr rdc_update out_cell_inj w [symmetric])
  have same: "?P (?body it v s) = mean_step v (?P s)" if "?I s" for v s
    using that by (cases s) (simp add: rd_wr rdc_update w mean_step_def)
  have "?I (buf ?a0, replicate (sz_t a) 0)"
    using I0 assms(3) by simp
  note slot = chunks_slot [where I = ?I and P = ?P and g = mean_step and it = it and body = ?body
        and bi = bi and chunks = chunks, OF inv other same this]
  obtain d' c' where s: "?s = (d', c')" by (cases ?s)
  from slot s have len: "?w < length d'"
    and val: "fold mean_step (all_slot_values chunks bi it) (Fin 0, 0) = (rd d' ?w, rdc c' it)"
    by (simp_all add: init_band_cell(1) [OF assms(3,4)] rdc_replicate_zero)
  show ?thesis
    unfolding mean_run_def run s val
    using mean_finalize_cell [where a = "?a0\<lparr>buf := d'\<rparr>" and r = "?r0\<lparr>mean_count := c'\<rparr>" and it = it]
      assms(3) len
    by simp
qed


section \<open>var and sd\<close>

lemma var_fold_normal:
  "fold (\<lambda>b (a', r'). var_combine r' a' b) chunks (a\<lparr>buf := d\<rparr>, r\<lparr>var_count := c, var_mean := m\<rparr>)
     = (case fold (\<lambda>b. for_each_value b (band_idx_in r)
                  (\<lambda>it. var_body (out_cell a (band_idx_out r) it) it)) chunks (d, c, m)
        of (d', c', m') \<Rightarrow> (a\<lparr>buf := d'\<rparr>, r\<lparr>var_count := c', var_mean := m'\<rparr>))"
  by (induction chunks arbitrary: d c m) (simp_all add: var_combine_def split: prod.splits)

lemma var_finalize_cell:
  assumes "it < sz_t a" "fin_cell a (band_idx_out r) it < length (buf a)"
  shows "result_cell (var_finalize r a) (band_idx_out r) it
           = (if 1 < rdc (var_count r) it
              then ddiv (rd (buf a) (fin_cell a (band_idx_out r) it)) (of_u32 (rdc (var_count r) it - 1))
              else NaN)"
  using finalize_cell [where a = a and bo = "band_idx_out r" and it = it and d = "buf a"
      and F = "\<lambda>it x. if 1 < rdc (var_count r) it then ddiv x (of_u32 (rdc (var_count r) it - 1)) else NaN"]
    assms
  by (simp add: result_cell_def var_finalize_def)

lemma sd_finalize_cell:
  assumes "it < sz_t a" "fin_cell a (band_idx_out r) it < length (buf a)"
  shows "result_cell (sd_finalize r a) (band_idx_out r) it
           = (if 1 < rdc (var_count r) it
              then dsqrt (ddiv (rd (buf a) (fin_cell a (band_idx_out r) it)) (of_u32 (rdc (var_count r) it - 1)))
              else NaN)"
  using finalize_cell [where a = a and bo = "band_idx_out r" and it = it and d = "buf a"
      and F = "\<lambda>it x. if 1 < rdc (var_count r) it then dsqrt (ddiv x (of_u32 (rdc (var_count r) it - 1))) else NaN"]
    assms
  by (simp add: result_cell_def sd_finalize_def)

lemma rd_update: "rd (m[j := x]) i = (if i = j \<and> j < length m then x else rd m i)"
  by (simp add: rd_def)

lemma rd_replicate: "i < n \<Longrightarrow> rd (replicate n x) i = x"
  by (simp add: rd_def)

lemma var_fold_slot:
  assumes "sz_y a = 1" "sz_x a = 1" "it < sz_t a" "fin_cell a bo it < length (buf a)"
  shows "\<exists>d' c' m'.
      fold (\<lambda>b (a', r'). var_combine r' a' b) chunks (var_init a bi bo)
        = ((init_band a bo (Fin 0))\<lparr>buf := d'\<rparr>,
           \<lparr>band_idx_in = bi, band_idx_out = bo, var_count = c', var_mean = m'\<rparr>) \<and>
      fin_cell a bo it < length d' \<and>
      fold var_step (all_slot_values chunks bi it) (Fin 0, 0, Fin 0)
        = (rd d' (fin_cell a bo it), rdc c' it, rd m' it)"
proof -
  let ?a0 = "init_band a bo (Fin 0)"
  let ?r0 = "\<lparr>band_idx_in = bi, band_idx_out = bo,
              var_count = replicate (sz_t a) 0, var_mean = replicate (sz_t a) (Fin 0)\<rparr>"
  let ?w = "fin_cell a bo it"
  let ?body = "\<lambda>it. var_body (out_cell ?a0 bo it) it"
  let ?s = "fold (\<lambda>b. for_each_value b bi ?body) chunks
              (buf ?a0, replicate (sz_t a) 0, replicate (sz_t a) (Fin 0))"
  have w: "out_cell a bo it = ?w"
    using assms(1,2) by (simp add: out_cell_fin_cell)
  have run: "fold (\<lambda>b (a', r'). var_combine r' a' b) chunks (var_init a bi bo)
      = (case ?s of (d', c', m') \<Rightarrow> (?a0\<lparr>buf := d'\<rparr>, ?r0\<lparr>var_count := c', var_mean := m'\<rparr>))"
    using var_fold_normal [where r = ?r0 and chunks = chunks and a = ?a0 and d = "buf ?a0"
        and c = "replicate (sz_t a) 0" and m = "replicate (sz_t a) (Fin 0)"]
    by (simp add: var_init_def)
  have I0: "?w < length (buf ?a0)"
    using init_band_cell(2) [OF assms(3,4)] assms(4) by simp
  let ?I = "\<lambda>(d, c, m). ?w < length d \<and> it < length (c :: 32 word list) \<and> it < length (m :: double list)"
  let ?P = "\<lambda>(d, c, m). (rd d ?w, rdc c it, rd m it)"
  have inv: "?I (?body it' v s)" if "?I s" for it' v s
    using that by (cases s) (simp add: var_body_def Let_def)
  have other: "?P (?body it' v s) = ?P s" if "?I s" "it' \<noteq> it" for it' v s
    using that by (cases s) (simp add: var_body_def Let_def rd_wr rdc_update rd_update out_cell_inj w [symmetric])
  have same: "?P (?body it v s) = var_step v (?P s)" if "?I s" for v s
    using that by (cases s) (simp add: var_body_def var_step_def Let_def rd_wr rdc_update rd_update w)
  have "?I (buf ?a0, replicate (sz_t a) 0, replicate (sz_t a) (Fin 0))"
    using I0 assms(3) by simp
  note slot = chunks_slot [where I = ?I and P = ?P and g = var_step and it = it and body = ?body
        and bi = bi and chunks = chunks, OF inv other same this]
  obtain d' c' m' where s: "?s = (d', c', m')" by (cases ?s)
  from slot s have "?w < length d'"
    and "fold var_step (all_slot_values chunks bi it) (Fin 0, 0, Fin 0) = (rd d' ?w, rdc c' it, rd m' it)"
    by (simp_all add: init_band_cell(1) [OF assms(3,4)] rd_replicate assms(3))
  with run s show ?thesis by auto
qed

lemma var_run_cell:
  assumes "sz_y a = 1" "sz_x a = 1" "it < sz_t a" "fin_cell a bo it < length (buf a)"
  shows "result_cell (var_run a bi bo chunks) bo it
           = var_result (fold var_step (all_slot_values chunks bi it) (Fin 0, 0, Fin 0))"
proof -
  from var_fold_slot [OF assms, of chunks bi] obtain d' c' m' where
    run: "fold (\<lambda>b (a', r'). var_combine r' a' b) chunks (var_init a bi bo)
        = ((init_band a bo (Fin 0))\<lparr>buf := d'\<rparr>,
           \<lparr>band_idx_in = bi, band_idx_out = bo, var_count = c', var_mean = m'\<rparr>)"
    and len: "fin_cell a bo it < length d'"
    and val: "fold var_step (all_slot_values chunks bi it) (Fin 0, 0, Fin 0)
        = (rd d' (fin_cell a bo it), rdc c' it, rd m' it)"
    by blast
  show ?thesis
    unfolding var_run_def run val
    using var_finalize_cell [where a = "(init_band a bo (Fin 0))\<lparr>buf := d'\<rparr>"
        and r = "\<lparr>band_idx_in = bi, band_idx_out = bo, var_count = c', var_mean = m'\<rparr>" and it = it]
      assms(3) len
    by (simp add: var_result_def)
qed

lemma sd_run_cell:
  assumes "sz_y a = 1" "sz_x a = 1" "it < sz_t a" "fin_cell a bo it < length (buf a)"
  shows "result_cell (sd_run a bi bo chunks) bo it
           = sd_result (fold var_step (all_slot_values chunks bi it) (Fin 0, 0, Fin 0))"
proof -
  from var_fold_slot [OF assms, of chunks bi] obtain d' c' m' where
    run: "fold (\<lambda>b (a', r'). var_combine r' a' b) chunks (var_init a bi bo)
        = ((init_band a bo (Fin 0))\<lparr>buf := d'\<rparr>,
           \<lparr>band_idx_in = bi, band_idx_out = bo, var_count = c', var_mean = m'\<rparr>)"
    and len: "fin_cell a bo it < length d'"
    and val: "fold var_step (all_slot_values chunks bi it) (Fin 0, 0, Fin 0)
        = (rd d' (fin_cell a bo it), rdc c' it, rd m' it)"
    by blast
  show ?thesis
    unfolding sd_run_def run val
    using sd_finalize_cell [where a = "(init_band a bo (Fin 0))\<lparr>buf := d'\<rparr>"
        and r = "\<lparr>band_idx_in = bi, band_idx_out = bo, var_count = c', var_mean = m'\<rparr>" and it = it]
      assms(3) len
    by (simp add: sd_result_def)
qed


lemma of_u32_of_nat:
  assumes "l < 2 ^ 32"
  shows "of_u32 (of_nat l) = Fin (real l)"
proof -
  have "unat (of_nat l :: 32 word) = l"
    by (rule of_nat_inverse [OF refl]) (use assms in simp)
  then show ?thesis by (simp only: of_u32_def)
qed

lemma of_u32_zero: "of_u32 0 = Fin 0"
  by (simp add: of_u32_def)

lemma of_u32_nonneg: "\<exists>k\<ge>0. of_u32 n = Fin k"
  unfolding of_u32_def
  by (rule exI [of _ "real (unat n)"]) (simp only: of_nat_0_le_iff simp_thms)

lemma var_step_count: "fst (snd (var_step v s)) = fst (snd s) + 1"
  by (cases s) (simp add: var_step_def Let_def)

lemma var_fold_count: "fst (snd (fold var_step vs s)) = fst (snd s) + of_nat (length vs)"
  by (induction vs arbitrary: s) (simp_all add: var_step_count)

lemma var_step_nan: "fst s = NaN \<Longrightarrow> fst (var_step v s) = NaN"
  by (cases s) (simp add: var_step_def Let_def)

lemma var_fold_nan: "fst s = NaN \<Longrightarrow> fst (fold var_step vs s) = NaN"
  by (induction vs arbitrary: s) (simp_all add: var_step_nan)

text \<open>An infinity makes the accumulator NaN, whatever the state is: the new mean is the
  infinity or NaN, and the difference of the value and the new mean is NaN.\<close>

lemma var_step_infinite:
  assumes "v = PInf \<or> v = NInf"
  shows "fst (var_step v s) = NaN"
proof -
  obtain x n mu where s: "s = (x, n, mu)" by (cases s)
  from of_u32_nonneg [of "n + 1"] obtain k where k: "0 \<le> k" "of_u32 (n + 1) = Fin k" by blast
  from assms show ?thesis
  proof
    assume "v = PInf"
    then show ?thesis
      using k(1) by (cases mu) (simp_all add: s var_step_def Let_def dsub_def k(2))
  next
    assume "v = NInf"
    then show ?thesis
      using k(1) by (cases mu) (simp_all add: s var_step_def Let_def dsub_def k(2))
  qed
qed

lemma var_fold_infinite:
  assumes "\<exists>v \<in> set vs. v = PInf \<or> v = NInf"
  shows "fst (fold var_step vs s) = NaN"
  using assms
proof (induction vs arbitrary: s)
  case Nil
  then show ?case by simp
next
  case (Cons v vs)
  show ?case
  proof (cases "v = PInf \<or> v = NInf")
    case True
    then have "fst (var_step v s) = NaN" by (rule var_step_infinite)
    then show ?thesis by (simp add: var_fold_nan)
  next
    case False
    with Cons.prems have "\<exists>v \<in> set vs. v = PInf \<or> v = NInf" by auto
    from Cons.IH [OF this] show ?thesis by simp
  qed
qed

lemma sd_result_sqrt: "sd_result s = dsqrt (var_result s)"
  by (cases s) (simp add: sd_result_def var_result_def)

lemma var_result_nan: "fst s = NaN \<Longrightarrow> var_result s = NaN"
  by (cases s) (simp add: var_result_def)

lemma var_result_few:
  assumes "fst (snd s) = of_nat l" "l < 2"
  shows "var_result s = NaN"
proof -
  obtain x n mu where s: "s = (x, n, mu)" by (cases s)
  from assms(2) have "l = 0 \<or> l = 1" by arith
  with assms(1) have "n = 0 \<or> n = 1" by (auto simp: s)
  then have "\<not> 1 < n" by auto
  then show ?thesis by (simp add: var_result_def s)
qed

lemma var_result_tolerance:
  assumes "var_result s = Fin q" "0 \<le> q"
  shows "\<exists>r\<ge>0. sd_result s = Fin r \<and> \<bar>r * r - q\<bar> \<le> q / 2 ^ 51"
proof -
  obtain x n mu where s: "s = (x, n, mu)" by (cases s)
  from assms(1) have gt: "1 < n" and d: "ddiv x (of_u32 (n - 1)) = Fin q"
    by (simp_all add: var_result_def s split: if_splits)
  from dsqrt_tolerance [OF d assms(2)] gt show ?thesis
    by (simp add: sd_result_def s)
qed

lemma slot_values_not_nan: "v \<in> set (all_slot_values chunks bi it) \<Longrightarrow> \<not> isnan v"
  by (auto simp: all_slot_values_def slot_values_def split: if_splits)

lemma not_finite_cases: "\<not> isfinite v \<Longrightarrow> \<not> isnan v \<Longrightarrow> v = PInf \<or> v = NInf"
  by (cases v) (simp_all add: isfinite_def isnan_def)

text \<open>
  Claim C6, amended.  For every sequence of input chunks and every time slot of a result chunk,
  the value that the sd reducer writes is the square root, as \<open>sqrt\<close> computes it, of the value
  that the var reducer writes.  So when the var result is a number \<open>q \<ge> 0\<close>, the sd result is
  a number \<open>r \<ge> 0\<close> whose square is \<open>q\<close> up to the rounding of the root,
  \<open>\<bar>r * r - q\<bar> \<le> q / 2^51\<close>; when it is plus infinity, so is the sd result; in every other case
  (NaN, minus infinity, a negative number) the sd result is NaN.  Both results are NaN when
  fewer than two of the combined values are finite, and also when an infinity is among them.
\<close>

theorem sd_is_root_of_var:
  assumes "sz_y a = 1" "sz_x a = 1" "it < sz_t a" "fin_cell a bo it < length (buf a)"
  shows "result_cell (sd_run a bi bo chunks) bo it = dsqrt (result_cell (var_run a bi bo chunks) bo it)
       \<and> (\<forall>q. result_cell (var_run a bi bo chunks) bo it = Fin q \<and> 0 \<le> q \<longrightarrow>
              (\<exists>r\<ge>0. result_cell (sd_run a bi bo chunks) bo it = Fin r \<and> \<bar>r * r - q\<bar> \<le> q / 2 ^ 51))
       \<and> (result_cell (var_run a bi bo chunks) bo it = PInf \<longrightarrow>
              result_cell (sd_run a bi bo chunks) bo it = PInf)
       \<and> (result_cell (var_run a bi bo chunks) bo it = NaN \<or>
            result_cell (var_run a bi bo chunks) bo it = NInf \<or>
            (\<exists>q<0. result_cell (var_run a bi bo chunks) bo it = Fin q) \<longrightarrow>
              result_cell (sd_run a bi bo chunks) bo it = NaN)
       \<and> (length (filter isfinite (all_slot_values chunks bi it)) < 2 \<or>
            (\<exists>v \<in> set (all_slot_values chunks bi it). \<not> isfinite v) \<longrightarrow>
              result_cell (var_run a bi bo chunks) bo it = NaN \<and>
              result_cell (sd_run a bi bo chunks) bo it = NaN)"
proof -
  let ?vs = "all_slot_values chunks bi it"
  let ?s = "fold var_step ?vs (Fin 0, 0, Fin 0)"
  have v: "result_cell (var_run a bi bo chunks) bo it = var_result ?s"
    by (rule var_run_cell [OF assms])
  have s': "result_cell (sd_run a bi bo chunks) bo it = sd_result ?s"
    by (rule sd_run_cell [OF assms])
  have s: "sd_result ?s = dsqrt (var_result ?s)"
    by (rule sd_result_sqrt)
  have n: "fst (snd ?s) = of_nat (length ?vs)"
    by (simp add: var_fold_count)
  have nan: "var_result ?s = NaN"
    if "length (filter isfinite ?vs) < 2 \<or> (\<exists>v \<in> set ?vs. \<not> isfinite v)"
  proof (cases "\<exists>v \<in> set ?vs. \<not> isfinite v")
    case True
    then have "\<exists>v \<in> set ?vs. v = PInf \<or> v = NInf"
      using not_finite_cases slot_values_not_nan by blast
    then have "fst ?s = NaN" by (rule var_fold_infinite)
    then show ?thesis by (rule var_result_nan)
  next
    case False
    then have "filter isfinite ?vs = ?vs" by (simp add: filter_id_conv)
    with that False have "length ?vs < 2" by simp
    with n show ?thesis by (rule var_result_few)
  qed
  show ?thesis
    unfolding v s'
  proof (intro conjI allI impI)
    show "sd_result ?s = dsqrt (var_result ?s)" by (rule s)
    show "\<exists>r\<ge>0. sd_result ?s = Fin r \<and> \<bar>r * r - q\<bar> \<le> q / 2 ^ 51"
      if "var_result ?s = Fin q \<and> 0 \<le> q" for q
      using that var_result_tolerance by blast
    show "sd_result ?s = PInf" if "var_result ?s = PInf"
      by (simp add: s that)
    show "sd_result ?s = NaN"
      if "var_result ?s = NaN \<or> var_result ?s = NInf \<or> (\<exists>q<0. var_result ?s = Fin q)"
      using that by (auto simp: s)
    show "var_result ?s = NaN"
      if "length (filter isfinite ?vs) < 2 \<or> (\<exists>v \<in> set ?vs. \<not> isfinite v)"
      by (rule nan [OF that])
    show "sd_result ?s = NaN"
      if "length (filter isfinite ?vs) < 2 \<or> (\<exists>v \<in> set ?vs. \<not> isfinite v)"
      by (simp add: s nan [OF that])
  qed
qed


section \<open>mean, sum and count\<close>

lemma fold_mean_step:
  "fold mean_step vs (x, n) = (fold (\<lambda>v x. dadd x v) vs x, n + of_nat (length vs))"
  by (induction vs arbitrary: x n) (simp_all add: mean_step_def)

lemma fold_count:
  assumes "k + length vs \<le> 2 ^ 53"
  shows "fold (\<lambda>v x. dadd x (Fin 1)) vs (Fin (real k)) = Fin (real (k + length vs))"
  using assms
proof (induction vs arbitrary: k)
  case Nil
  then show ?case by simp
next
  case (Cons v vs)
  from Cons.prems have k: "Suc k \<le> 2 ^ 53" by simp
  have "dadd (Fin (real k)) (Fin 1) = Fin (real (Suc k))"
    using to_double_nat [OF k] by (simp add: add.commute)
  moreover from Cons.prems have "Suc k + length vs \<le> 2 ^ 53" by simp
  ultimately show ?case using Cons.IH [of "Suc k"] by simp
qed

lemma count_run_length:
  assumes "sz_y a = 1" "sz_x a = 1" "it < sz_t a" "fin_cell a bo it < length (buf a)"
      and "length (all_slot_values chunks bi it) \<le> 2 ^ 53"
  shows "result_cell (count_run a bi bo chunks) bo it = Fin (real (length (all_slot_values chunks bi it)))"
  using fold_count [of 0 "all_slot_values chunks bi it"] assms(5)
  by (simp add: count_run_cell [OF assms(1-4)])

text \<open>
  Below the wrap of the counter the three reducers agree: for every sequence of input chunks
  with fewer than \<open>2^32\<close> values that are not NaN in the time slot, the value that the mean
  reducer writes is the value of the sum reducer divided by the value of the count reducer when
  the latter is positive, and NaN when it is zero.  The count is the number of values that are
  not NaN.
\<close>

theorem mean_is_sum_over_count:
  assumes "sz_y a = 1" "sz_x a = 1" "it < sz_t a" "fin_cell a bo it < length (buf a)"
      and "length (all_slot_values chunks bi it) < 2 ^ 32"
  shows "result_cell (mean_run a bi bo chunks) bo it
           = (if dless (Fin 0) (result_cell (count_run a bi bo chunks) bo it)
              then ddiv (result_cell (sum_run a bi bo chunks) bo it)
                        (result_cell (count_run a bi bo chunks) bo it)
              else NaN)"
proof -
  let ?vs = "all_slot_values chunks bi it"
  let ?n = "of_nat (length ?vs) :: 32 word"
  have u: "unat ?n = length ?vs"
    by (rule of_nat_inverse [OF refl]) (use assms(5) in simp)
  have pos: "0 < ?n \<longleftrightarrow> 0 < length ?vs"
    using u by (simp only: word_less_nat_alt) simp
  have ou: "of_u32 ?n = Fin (real (length ?vs))"
    by (rule of_u32_of_nat [OF assms(5)])
  have m: "result_cell (mean_run a bi bo chunks) bo it
      = (if 0 < ?n then ddiv (fold (\<lambda>v x. dadd x v) ?vs (Fin 0)) (of_u32 ?n) else NaN)"
    by (simp add: mean_run_cell [OF assms(1-4)] fold_mean_step)
  have le: "length ?vs \<le> 2 ^ 53"
  proof -
    have "(2 :: nat) ^ 32 \<le> 2 ^ 53" by simp
    with assms(5) show ?thesis by linarith
  qed
  show ?thesis
    unfolding m sum_run_cell [OF assms(1-4)] count_run_length [OF assms(1-4) le] ou
    by (simp add: pos)
qed

section \<open>median\<close>

lemma median_fold_normal:
  "fold (\<lambda>b (a', r'). median_combine r' a' b) chunks (a, r\<lparr>m_buckets := m\<rparr>)
     = (a, r\<lparr>m_buckets := fold (\<lambda>b. for_each_value b (band_idx_in r)
              (\<lambda>it v m. if it < length m then m[it := m ! it @ [v]] else m)) chunks m\<rparr>)"
  by (induction chunks arbitrary: m) (simp_all add: median_combine_def)

lemma median_finalize_cell:
  assumes "it < sz_t a" "fin_cell a (band_idx_out r) it < length (buf a)"
  shows "result_cell (median_finalize r a) (band_idx_out r) it
           = median_of_sorted (std_sort (if it < length (m_buckets r) then m_buckets r ! it else []))"
  using finalize_cell [where a = a and bo = "band_idx_out r" and it = it and d = "buf a"
      and F = "\<lambda>it x. median_of_sorted (std_sort (if it < length (m_buckets r) then m_buckets r ! it else []))"]
    assms
  by (simp add: result_cell_def median_finalize_def)

lemma fold_snoc: "fold (\<lambda>v l. l @ [v]) vs l = l @ vs"
  by (induction vs arbitrary: l) simp_all

lemma median_run_cell:
  assumes "it < sz_t a" "fin_cell a bo it < length (buf a)"
  shows "result_cell (median_run a bi bo chunks) bo it
           = median_of_sorted (std_sort (all_slot_values chunks bi it))"
proof -
  let ?r0 = "\<lparr>band_idx_in = bi, band_idx_out = bo, m_buckets = replicate (sz_t a) []\<rparr>"
  let ?body = "\<lambda>it v (m :: double list list). if it < length m then m[it := m ! it @ [v]] else m"
  let ?m = "fold (\<lambda>b. for_each_value b bi ?body) chunks (replicate (sz_t a) [])"
  have run: "fold (\<lambda>b (a', r'). median_combine r' a' b) chunks (median_init a bi bo)
      = (a, ?r0\<lparr>m_buckets := ?m\<rparr>)"
    using median_fold_normal [where r = ?r0 and chunks = chunks and a = a
        and m = "replicate (sz_t a) []"]
    by (simp add: median_init_def)
  let ?I = "\<lambda>m :: double list list. it < length m"
  let ?P = "\<lambda>m :: double list list. m ! it"
  have inv: "?I (?body it' v s)" if "?I s" for it' v s
    using that by simp
  have other: "?P (?body it' v s) = ?P s" if "?I s" "it' \<noteq> it" for it' v s
    using that by simp
  have same: "?P (?body it v s) = (\<lambda>v l. l @ [v]) v (?P s)" if "?I s" for v s
    using that by simp
  have "?I (replicate (sz_t a) [])" using assms(1) by simp
  note slot = chunks_slot [where I = ?I and P = ?P and g = "\<lambda>v l. l @ [v]" and it = it
      and body = ?body and bi = bi and chunks = chunks, OF inv other same this]
  from slot have len: "it < length ?m" and val: "?m ! it = all_slot_values chunks bi it"
    using assms(1) by (simp_all add: fold_snoc)
  show ?thesis
    unfolding median_run_def run
    using median_finalize_cell [where a = a and r = "?r0\<lparr>m_buckets := ?m\<rparr>" and it = it]
      assms len val
    by simp
qed

lemma dkey_le_not_dless: "dkey x \<le> dkey y \<Longrightarrow> \<not> dless y x"
  by (cases x; cases y) simp_all

lemma std_sort_sorted: "sorted_wrt (\<lambda>x y. \<not> dless y x) (std_sort xs)"
proof -
  have "sorted (map dkey (std_sort xs))"
    by (simp add: std_sort_def)
  then have "sorted_wrt (\<lambda>x y. dkey x \<le> dkey y) (std_sort xs)"
    by (simp add: sorted_map)
  then show ?thesis
    by (rule sorted_wrt_mono_rel [rotated]) (simp add: dkey_le_not_dless)
qed

lemma std_sort_mset: "mset (std_sort xs) = mset xs"
  by (simp add: std_sort_def)

text \<open>
  Claim C7, amended.  For every sequence of input chunks and every time slot of the result chunk,
  the median reducer writes NaN when it collected nothing, the middle element of the ascending
  arrangement of the collected values when their number is odd, and the average of the two middle
  elements when it is even.  The collected values are the values of the slot that are not NaN:
  a NaN is never collected, an infinity is.
\<close>

theorem median_of_collected:
  assumes "it < sz_t a" "fin_cell a bo it < length (buf a)"
  shows "\<exists>list. mset list = mset (all_slot_values chunks bi it)
           \<and> sorted_wrt (\<lambda>x y. \<not> dless y x) list
           \<and> (\<forall>v \<in> set list. \<not> isnan v)
           \<and> result_cell (median_run a bi bo chunks) bo it
               = (if list = [] then NaN
                  else if odd (length list) then list ! (length list div 2)
                  else ddiv (dadd (list ! (length list div 2)) (list ! (length list div 2 - 1))) (Fin 2))"
proof (intro exI conjI)
  let ?l = "std_sort (all_slot_values chunks bi it)"
  show "mset ?l = mset (all_slot_values chunks bi it)" by (rule std_sort_mset)
  show "sorted_wrt (\<lambda>x y. \<not> dless y x) ?l" by (rule std_sort_sorted)
  have "set ?l = set (all_slot_values chunks bi it)"
    by (simp add: std_sort_def)
  then show "\<forall>v \<in> set ?l. \<not> isnan v"
    by (simp add: slot_values_not_nan)
  show "result_cell (median_run a bi bo chunks) bo it
      = (if ?l = [] then NaN
         else if odd (length ?l) then ?l ! (length ?l div 2)
         else ddiv (dadd (?l ! (length ?l div 2)) (?l ! (length ?l div 2 - 1))) (Fin 2))"
    by (simp add: median_run_cell [OF assms] median_of_sorted_def odd_iff_mod_2_eq_one)
qed



section \<open>The reducers on examples\<close>

text \<open>Evaluation of the runs on the example chunks.\<close>

lemmas chunk_eval = sz_t_def sz_y_def sz_x_def sz_b_def fin_cell_def out_cell_def in_value_def
  rd_def wr_def isnan_def for_each_value_def init_band_def result_cell_def upt_rec Let_def

lemma series_slot: "all_slot_values [series_chunk] 0 0 = [Fin 1, Fin 2, Fin 3]"
  by (simp add: all_slot_values_def slot_values_def series_chunk_def chunk_eval)

lemma out_one_wf:
  "sz_y out_one = 1" "sz_x out_one = 1" "0 < sz_t out_one" "fin_cell out_one 0 0 < length (buf out_one)"
  by (simp_all add: out_one_def chunk_eval)

lemma series_var_direct: "result_cell (var_run out_one 0 0 [series_chunk]) 0 0 = Fin 1"
  by (simp add: var_run_def var_init_def var_combine_def var_finalize_def var_body_def
      out_one_def series_chunk_def chunk_eval rdc_def of_u32_def dsub_def)

lemma series_sd_direct: "result_cell (sd_run out_one 0 0 [series_chunk]) 0 0 = Fin 1"
  by (simp add: sd_run_def var_init_def var_combine_def sd_finalize_def var_body_def
      out_one_def series_chunk_def chunk_eval rdc_def of_u32_def dsub_def)

lemma series_mean_direct: "result_cell (mean_run out_one 0 0 [series_chunk]) 0 0 = Fin 2"
  by (simp add: mean_run_def mean_init_def mean_combine_def mean_finalize_def
      out_one_def series_chunk_def chunk_eval rdc_def of_u32_def)

lemma series_sum_direct: "result_cell (sum_run out_one 0 0 [series_chunk]) 0 0 = Fin 6"
  by (simp add: sum_run_def sum_init_def sum_combine_def
      out_one_def series_chunk_def chunk_eval)

lemma series_count_direct: "result_cell (count_run out_one 0 0 [series_chunk]) 0 0 = Fin 3"
  by (simp add: count_run_def count_init_def count_combine_def
      out_one_def series_chunk_def chunk_eval)

lemma series_median_direct: "result_cell (median_run out_one 0 0 [series_chunk]) 0 0 = Fin 2"
  by (simp add: median_run_def median_init_def median_combine_def median_finalize_def
      median_of_sorted_def std_sort_def
      out_one_def series_chunk_def chunk_eval)

lemma inf_median_direct: "result_cell (median_run out_one 0 0 [inf_chunk]) 0 0 = PInf"
  by (simp add: median_run_def median_init_def median_combine_def median_finalize_def
      median_of_sorted_def std_sort_def
      out_one_def inf_chunk_def chunk_eval)


lemma slot_values_const:
  assumes "size_btyx c = (1, 1, h, w)" "buf c = replicate (h * w) (Fin x)"
  shows "slot_values c 0 0 = replicate (h * w) (Fin x)"
proof -
  have "map (in_value c 0 0) [0..<h * w] = map (\<lambda>i. Fin x) [0..<h * w]"
    by (rule map_cong) (simp_all add: in_value_def rd_def assms sz_t_def sz_y_def sz_x_def)
  then show ?thesis
    by (simp add: slot_values_def assms(1) sz_t_def sz_y_def sz_x_def map_replicate_const isnan_def)
qed

lemma concat_replicate_replicate: "concat (replicate k (replicate m x)) = replicate (k * m) x"
  by (induction k) (simp_all add: replicate_add)

lemma all_slot_values_replicate:
  "all_slot_values (replicate k c) bi it = concat (replicate k (slot_values c bi it))"
  by (simp add: all_slot_values_def)

lemma fold_sum_ones:
  assumes "k + n \<le> 2 ^ 53"
  shows "fold (\<lambda>v x. dadd x v) (replicate n (Fin 1)) (Fin (real k)) = Fin (real (k + n))"
  using assms
proof (induction n arbitrary: k)
  case 0
  then show ?case by simp
next
  case (Suc n)
  from Suc.prems have k: "Suc k \<le> 2 ^ 53" by simp
  have "dadd (Fin (real k)) (Fin 1) = Fin (real (Suc k))"
    using to_double_nat [OF k] by (simp add: add.commute)
  moreover from Suc.prems have "Suc k + n \<le> 2 ^ 53" by simp
  ultimately show ?case using Suc.IH [of "Suc k"] by simp
qed

lemma ones_slot: "all_slot_values ones_chunks 0 0 = replicate (2 ^ 32) (Fin 1)"
proof -
  have "slot_values ones_chunk 0 0 = replicate (1024 * 1024) (Fin 1)"
    by (rule slot_values_const) (simp_all only: ones_chunk_def chunk_data.simps)
  then have "all_slot_values ones_chunks 0 0 = replicate (4096 * (1024 * 1024)) (Fin 1)"
    by (simp only: ones_chunks_def all_slot_values_replicate concat_replicate_replicate)
  moreover have "4096 * (1024 * 1024) = (2 ^ 32 :: nat)" by simp
  ultimately show ?thesis by (simp only:)
qed

text \<open>
  Claim C5.  The mean reducer does not give the sum divided by the count where its \<open>uint32_t\<close>
  counter wraps: on 4096 chunks of 1024 by 1024 pixels, all 1, the slot has \<open>2^32\<close> values;
  the sum reducer and the count reducer, which accumulate in the \<open>double\<close> cell, both write
  4294967296, whose quotient is 1, and the mean reducer writes NaN.
\<close>

theorem mean_counter_wraps:
  "result_cell (mean_run out_one 0 0 ones_chunks) 0 0 = NaN \<and>
   result_cell (sum_run out_one 0 0 ones_chunks) 0 0 = Fin 4294967296 \<and>
   result_cell (count_run out_one 0 0 ones_chunks) 0 0 = Fin 4294967296 \<and>
   dless (Fin 0) (result_cell (count_run out_one 0 0 ones_chunks) 0 0) \<and>
   ddiv (result_cell (sum_run out_one 0 0 ones_chunks) 0 0)
        (result_cell (count_run out_one 0 0 ones_chunks) 0 0) = Fin 1"
proof -
  have le: "0 + 2 ^ 32 \<le> (2 :: nat) ^ 53" by simp
  have len: "length (replicate (2 ^ 32) (Fin 1)) \<le> 2 ^ 53" by simp
  have r: "real (0 + 2 ^ 32) = 4294967296" by simp
  have m: "result_cell (mean_run out_one 0 0 ones_chunks) 0 0 = NaN"
    unfolding mean_run_cell [OF out_one_wf] ones_slot fold_mean_step
    by simp
  have "fold (\<lambda>v x. dadd x v) (replicate (2 ^ 32) (Fin 1)) (Fin (real 0)) = Fin (real (0 + 2 ^ 32))"
    by (rule fold_sum_ones [OF le])
  then have s: "result_cell (sum_run out_one 0 0 ones_chunks) 0 0 = Fin 4294967296"
    unfolding sum_run_cell [OF out_one_wf] ones_slot r by simp
  have "result_cell (count_run out_one 0 0 ones_chunks) 0 0
      = Fin (real (length (all_slot_values ones_chunks 0 0)))"
    by (rule count_run_length [OF out_one_wf]) (simp only: ones_slot len)
  then have c: "result_cell (count_run out_one 0 0 ones_chunks) 0 0 = Fin 4294967296"
    unfolding ones_slot by simp
  show ?thesis unfolding m s c by simp
qed


lemma series_length: "length (all_slot_values [series_chunk] 0 0) < 2 ^ 32"
  by (simp add: series_slot)

theorem mean_is_sum_over_count_witness:
  "sz_y out_one = 1 \<and> sz_x out_one = 1 \<and> 0 < sz_t out_one \<and>
   fin_cell out_one 0 0 < length (buf out_one) \<and>
   length (all_slot_values [series_chunk] 0 0) < 2 ^ 32 \<and>
   result_cell (mean_run out_one 0 0 [series_chunk]) 0 0 = Fin 2 \<and>
   result_cell (sum_run out_one 0 0 [series_chunk]) 0 0 = Fin 6 \<and>
   result_cell (count_run out_one 0 0 [series_chunk]) 0 0 = Fin 3"
proof -
  note h = out_one_wf series_length
  have s: "result_cell (sum_run out_one 0 0 [series_chunk]) 0 0 = Fin 6"
    by (rule series_sum_direct)
  have c: "result_cell (count_run out_one 0 0 [series_chunk]) 0 0 = Fin 3"
    by (rule series_count_direct)
  from mean_is_sum_over_count [OF h]
  have "result_cell (mean_run out_one 0 0 [series_chunk]) 0 0 = Fin 2"
    unfolding s c by simp
  with h s c show ?thesis by simp
qed

lemma var_eval:
  "fold var_step [Fin 1, Fin 3, Fin 5] (Fin 0, 0, Fin 0) = (Fin 8, 3, Fin 3)"
  "fold var_step [Fin 1, Fin 3] (Fin 0, 0, Fin 0) = (Fin 2, 2, Fin 2)"
  "fold var_step [PInf] (Fin 0, 0, Fin 0) = (NaN, 1, PInf)"
  by (simp_all add: var_step_def Let_def dsub_def of_u32_def)

lemma example_slots:
  "all_slot_values [odd_chunk] 0 0 = [Fin 1, Fin 3, Fin 5]"
  "all_slot_values [pair_chunk] 0 0 = [Fin 1, Fin 3]"
  "all_slot_values [inf_chunk] 0 0 = [PInf]"
  "all_slot_values [mixed_chunk] 0 0 = [Fin 1, Fin 3, PInf]"
  "all_slot_values [huge_chunk] 0 0 = [Fin (2 ^ 1023), Fin (- (2 ^ 1023))]"
  by (simp_all add: all_slot_values_def slot_values_def odd_chunk_def pair_chunk_def inf_chunk_def
      mixed_chunk_def huge_chunk_def chunk_eval)

lemma example_var:
  "result_cell (var_run out_one 0 0 [odd_chunk]) 0 0 = Fin 4"
  "result_cell (var_run out_one 0 0 [pair_chunk]) 0 0 = Fin 2"
  unfolding var_run_cell [OF out_one_wf] example_slots var_eval
  by (simp_all add: var_result_def of_u32_def)

theorem sd_is_root_of_var_witness:
  "sz_y out_one = 1 \<and> sz_x out_one = 1 \<and> 0 < sz_t out_one \<and>
   fin_cell out_one 0 0 < length (buf out_one) \<and>
   result_cell (var_run out_one 0 0 [odd_chunk]) 0 0 = Fin 4 \<and>
   result_cell (sd_run out_one 0 0 [odd_chunk]) 0 0 = Fin 2 \<and>
   result_cell (var_run out_one 0 0 [pair_chunk]) 0 0 = Fin 2 \<and>
   (\<exists>r. 0 \<le> r \<and> result_cell (sd_run out_one 0 0 [pair_chunk]) 0 0 = Fin r \<and>
        \<bar>r * r - 2\<bar> \<le> 2 / 2 ^ 51) \<and>
   length (filter isfinite (all_slot_values [inf_chunk] 0 0)) < 2 \<and>
   result_cell (var_run out_one 0 0 [inf_chunk]) 0 0 = NaN \<and>
   result_cell (sd_run out_one 0 0 [inf_chunk]) 0 0 = NaN"
proof -
  note h = out_one_wf
  have few: "length (filter isfinite (all_slot_values [inf_chunk] 0 0)) < 2"
    by (simp add: example_slots isfinite_def)
  from sd_is_root_of_var [OF h, of 0 "[odd_chunk]"]
  have "result_cell (sd_run out_one 0 0 [odd_chunk]) 0 0
      = dsqrt (result_cell (var_run out_one 0 0 [odd_chunk]) 0 0)" by blast
  then have odd: "result_cell (sd_run out_one 0 0 [odd_chunk]) 0 0 = Fin 2"
    by (simp add: example_var)
  from sd_is_root_of_var [OF h, of 0 "[pair_chunk]"] example_var(2)
  have pair: "\<exists>r. 0 \<le> r \<and> result_cell (sd_run out_one 0 0 [pair_chunk]) 0 0 = Fin r \<and>
        \<bar>r * r - 2\<bar> \<le> 2 / 2 ^ 51" by fastforce
  from sd_is_root_of_var [OF h, of 0 "[inf_chunk]"] few
  have nan: "result_cell (var_run out_one 0 0 [inf_chunk]) 0 0 = NaN"
    "result_cell (sd_run out_one 0 0 [inf_chunk]) 0 0 = NaN" by blast+
  show ?thesis
    using h odd pair nan few example_var by simp
qed

text \<open>The doubles \<open>2^1023\<close> and its negative: their difference overflows.\<close>

lemma huge_values:
  "is_double (2 ^ 1023)"
  "to_double (2 ^ 1023) = Fin (2 ^ 1023)"
  "to_double (- (2 ^ 1023) - 2 ^ 1023) = NInf"
proof -
  have "\<bar>2 ^ 52 :: int\<bar> < 2 ^ 53" "(971 :: nat) \<le> 971" by simp_all
  from is_double_scaled [OF this] show d: "is_double (2 ^ 1023)" by simp
  then show "to_double (2 ^ 1023) = Fin (2 ^ 1023)" by (rule to_double_exact)
  have "- (2 ^ 1023) - 2 ^ 1023 \<le> - ((2 :: real) ^ 1024)" by simp
  then show "to_double (- (2 ^ 1023) - 2 ^ 1023) = NInf" by (rule to_double_overflow_neg)
qed

lemma huge_var_eval:
  "fold var_step [Fin (2 ^ 1023), Fin (- (2 ^ 1023))] (Fin 0, 0, Fin 0) = (NInf, 2, NInf)"
proof -
  define H :: real where "H = 2 ^ 1023"
  have H: "to_double H = Fin H" "to_double (- (2 * H)) = NInf" "H \<noteq> 0" "0 < H"
    unfolding H_def using huge_values(2,3) by simp_all
  have one: "of_u32 1 = Fin 1" "of_u32 2 = Fin 2" by (simp_all add: of_u32_def)
  have 1: "var_step (Fin H) (Fin 0, 0, Fin 0) = (Fin 0, 1, Fin H)"
    by (simp add: var_step_def Let_def dsub_def one H)
  have 2: "var_step (Fin (- H)) (Fin 0, 1, Fin H) = (NInf, 2, NInf)"
    by (simp add: var_step_def Let_def dsub_def one H inf_times_def)
  show ?thesis
    unfolding H_def [symmetric] by (simp add: 1 2)
qed

lemma mixed_var_eval:
  "fst (fold var_step [Fin 1, Fin 3, PInf] (Fin 0, 0, Fin 0)) = NaN"
  by (rule var_fold_infinite) simp

text \<open>
  Claim C6 as stated fails.  The slot with the two finite values \<open>2^1023\<close> and \<open>- 2^1023\<close>
  has at least two finite values, yet the difference of the second value and the running mean
  overflows: the var reducer writes minus infinity and the sd reducer NaN, whose square is not
  minus infinity.  And the slot with the values 1, 3 and plus infinity has two finite values,
  yet both reducers write NaN, since an infinity is combined as a value.
\<close>

theorem sd_squared_is_not_var:
  "all_slot_values [huge_chunk] 0 0 = [Fin (2 ^ 1023), Fin (- (2 ^ 1023))] \<and>
   is_double (2 ^ 1023) \<and> is_double (- (2 ^ 1023)) \<and>
   length (filter isfinite (all_slot_values [huge_chunk] 0 0)) = 2 \<and>
   result_cell (var_run out_one 0 0 [huge_chunk]) 0 0 = NInf \<and>
   result_cell (sd_run out_one 0 0 [huge_chunk]) 0 0 = NaN \<and>
   dmul (result_cell (sd_run out_one 0 0 [huge_chunk]) 0 0)
        (result_cell (sd_run out_one 0 0 [huge_chunk]) 0 0)
     \<noteq> result_cell (var_run out_one 0 0 [huge_chunk]) 0 0 \<and>
   length (filter isfinite (all_slot_values [mixed_chunk] 0 0)) = 2 \<and>
   result_cell (var_run out_one 0 0 [mixed_chunk]) 0 0 = NaN \<and>
   result_cell (sd_run out_one 0 0 [mixed_chunk]) 0 0 = NaN"
proof -
  have two: "of_u32 1 = Fin 1" "of_u32 2 = Fin 2" by (simp_all add: of_u32_def)
  have hv: "result_cell (var_run out_one 0 0 [huge_chunk]) 0 0 = NInf"
    unfolding var_run_cell [OF out_one_wf] example_slots huge_var_eval
    by (simp add: var_result_def two)
  have hs: "result_cell (sd_run out_one 0 0 [huge_chunk]) 0 0 = NaN"
    unfolding sd_run_cell [OF out_one_wf] example_slots huge_var_eval
    by (simp add: sd_result_def two)
  obtain x n mu where f: "fold var_step [Fin 1, Fin 3, PInf] (Fin 0, 0, Fin 0) = (x, n, mu)"
    by (cases "fold var_step [Fin 1, Fin 3, PInf] (Fin 0, 0, Fin 0)")
  with mixed_var_eval have x: "x = NaN" by simp
  have mv: "result_cell (var_run out_one 0 0 [mixed_chunk]) 0 0 = NaN"
    unfolding var_run_cell [OF out_one_wf] example_slots f
    by (simp add: var_result_def x)
  have ms: "result_cell (sd_run out_one 0 0 [mixed_chunk]) 0 0 = NaN"
    unfolding sd_run_cell [OF out_one_wf] example_slots f
    by (simp add: sd_result_def x)
  have d: "is_double (- (2 ^ 1023))"
    using is_double_minus [OF huge_values(1)] by simp
  have l: "length (filter isfinite (all_slot_values [huge_chunk] 0 0)) = 2"
    "length (filter isfinite (all_slot_values [mixed_chunk] 0 0)) = 2"
    unfolding example_slots by (simp_all add: isfinite_def)
  show ?thesis
    unfolding hv hs mv ms l
    using huge_values(1) d by (simp add: example_slots)
qed

theorem median_of_collected_witness:
  "0 < sz_t out_one \<and> fin_cell out_one 0 0 < length (buf out_one) \<and>
   (\<exists>list. mset list = mset (all_slot_values [series_chunk] 0 0)
      \<and> sorted_wrt (\<lambda>x y. \<not> dless y x) list
      \<and> (\<forall>v \<in> set list. \<not> isnan v)
      \<and> result_cell (median_run out_one 0 0 [series_chunk]) 0 0
          = (if list = [] then NaN
             else if odd (length list) then list ! (length list div 2)
             else ddiv (dadd (list ! (length list div 2)) (list ! (length list div 2 - 1))) (Fin 2))) \<and>
   result_cell (median_run out_one 0 0 [series_chunk]) 0 0 = Fin 2"
  using median_of_collected [OF out_one_wf(3,4), of "[series_chunk]" 0] out_one_wf(3,4)
    series_median_direct
  by simp

text \<open>
  Claim C7 as stated fails on an infinite input: the pixel plus infinity is not finite, yet
  \<open>combine\<close> puts it into the bucket and \<open>finalize\<close> returns it as the median.
\<close>

theorem infinity_is_collected:
  "\<not> isfinite (in_value inf_chunk 0 0 0) \<and>
   m_buckets (snd (median_combine (snd (median_init out_one 0 0)) (fst (median_init out_one 0 0)) inf_chunk))
     = [[PInf]] \<and>
   result_cell (median_run out_one 0 0 [inf_chunk]) 0 0 = PInf"
  by (simp add: median_run_def median_init_def median_combine_def median_finalize_def
      median_of_sorted_def std_sort_def isfinite_def
      out_one_def inf_chunk_def chunk_eval)

section \<open>Properties of the source and of the reduce-over-space operator\<close>


lemma replicate_two: "replicate 2 x = [x, x]"
  by (simp add: numeral_2_eq_2)

lemmas geometry_eval = count_chunks_def count_chunks_t_def count_chunks_y_def
  count_chunks_x_def ceil_div_def size_t_def size_y_def size_x_def nt_def chunk_size_of_def
  example_reference_def

lemmas source_eval = default_chunking_read_def geometry_eval
  two_image_source_def aggregation_state_new_def chunk_t0_def tdiv_def
  plane_offset_def Let_def replicate_two

lemma two_image_source_mean:
  "default_chunking_read (two_image_source A_MEAN) 0
     = Inr \<lparr>size_btyx = (1, 1, 1, 2), buf = [Fin 1, Fin 5]\<rparr>"
  by (simp add: source_eval aggregation_state_mean_update_def aggregation_state_mean_new_def
      memcpy_def mean_update_pixel_def rd_def wr_def isnan_def of_u16_def upt_rec)

text \<open>
  Claim C1.  The code does not compute the online mean: for the two images with the pixels
  1, NaN and 3, 5 in the same band and time slot the result plane is 1, 5 and not 2, 5, for the
  two calls of \<open>update\<close> as for \<open>read\<close> on a source with these two images.
\<close>

theorem two_images_mean_result:
  "two_images_mean = [Fin 1, Fin 5] \<and> two_images_mean \<noteq> [Fin 2, Fin 5] \<and>
   default_chunking_read (two_image_source A_MEAN) 0
     = Inr \<lparr>size_btyx = (1, 1, 1, 2), buf = [Fin 1, Fin 5]\<rparr>"
proof -
  have m: "two_images_mean = [Fin 1, Fin 5]"
    by (simp add: two_images_mean_def aggregation_state_mean_update_def aggregation_state_mean_new_def
      memcpy_def mean_update_pixel_def rd_def wr_def isnan_def of_u16_def upt_rec Let_def)
  show ?thesis unfolding m by (simp add: two_image_source_mean)
qed

lemma two_image_source_median:
  "default_chunking_read (two_image_source A_MEDIAN) 0
     = Inr \<lparr>size_btyx = (1, 1, 1, 2), buf = [Fin 3, Fin 5]\<rparr>"
  by (simp add: source_eval aggregation_state_none_update_def
      memcpy_def rd_def wr_def isnan_def upt_rec)

lemma two_image_source_none:
  "default_chunking_read (two_image_source A_NONE) 0
     = Inr \<lparr>size_btyx = (1, 1, 1, 2), buf = [Fin 3, Fin 5]\<rparr>"
  by (simp add: source_eval memcpy_def rd_def wr_def isnan_def upt_rec)

lemma cube_geometry_aggregation [simp]:
  "count_chunks (c\<lparr>aggregation_method := m\<rparr>) = count_chunks c"
  "chunk_size_of (c\<lparr>aggregation_method := m\<rparr>) k = chunk_size_of c k"
  "chunk_t0 (c\<lparr>aggregation_method := m\<rparr>) k = chunk_t0 c k"
  by (simp_all add: count_chunks_def count_chunks_t_def count_chunks_y_def count_chunks_x_def
      size_t_def size_y_def size_x_def chunk_size_of_def chunk_t0_def)

lemma read_image_bands_median:
  assumes "aggregation_method c = A_MEDIAN"
  shows "\<exists>cbuf'. read_image_bands c cid sz desc it rels b (cbuf, State_none) = (cbuf', State_none) \<and>
           read_image_bands (c\<lparr>aggregation_method := A_NONE\<rparr>) cid sz desc it rels b (cbuf, State_none)
             = (cbuf', State_none)"
proof (induction rels arbitrary: b cbuf)
  case Nil
  then show ?case by simp
next
  case (Cons rel rels)
  obtain bname bnum where rel: "rel = (bname, bnum)" by (cases rel)
  show ?case
  proof (cases "plane_offset sz bnum it < 0")
    case True
    with Cons.IH [of "Suc b" cbuf] show ?thesis
      by (simp add: rel Let_def)
  next
    case False
    with Cons.IH [of "Suc b"] assms show ?thesis
      by (simp add: rel Let_def aggregation_state_none_update_def)
  qed
qed

lemma read_images_median:
  assumes "aggregation_method c = A_MEDIAN"
  shows "read_images c cid sz rows (cbuf, State_none)
           = read_images (c\<lparr>aggregation_method := A_NONE\<rparr>) cid sz rows (cbuf, State_none)"
proof (induction "length rows" arbitrary: rows cbuf rule: less_induct)
  case less
  show ?case
  proof (cases rows)
    case Nil
    then show ?thesis by simp
  next
    case (Cons r rs)
    let ?rest = "dropWhile (\<lambda>x. descriptor x = descriptor r) rs"
    let ?group = "r # takeWhile (\<lambda>x. descriptor x = descriptor r) rs"
    let ?it = "tdiv (datetime (last ?group) - chunk_t0 c (nat cid)) (dt (st_reference c))"
    let ?rels = "map (\<lambda>x. (band_name x, band_num x)) ?group"
    have "length ?rest < length rows"
      using Cons by (simp add: less_Suc_eq_le length_dropWhile_le)
    note IH = less [OF this]
    from read_image_bands_median [OF assms, of cid sz "descriptor r" ?it ?rels 0 cbuf]
    obtain cbuf' where
      b1: "read_image_bands c cid sz (descriptor r) ?it ?rels 0 (cbuf, State_none) = (cbuf', State_none)"
      and b2: "read_image_bands (c\<lparr>aggregation_method := A_NONE\<rparr>) cid sz (descriptor r) ?it ?rels 0
                (cbuf, State_none) = (cbuf', State_none)"
      by blast
    show ?thesis
      using IH [of cbuf'] b1 b2
      by (simp add: Cons Let_def)
  qed
qed

text \<open>
  Claim C3, amended.  The source does not reject the median method: \<open>read\<close> with the
  aggregation method \<open>MEDIAN\<close> takes the branch of \<open>NONE\<close> for its aggregation state, and
  its result, an error included, is the one of the same source with the method \<open>NONE\<close>: the
  last image of a time slot wins.
\<close>

theorem median_is_read_as_none:
  assumes "aggregation_method c = A_MEDIAN"
  shows "default_chunking_read c cid = default_chunking_read (c\<lparr>aggregation_method := A_NONE\<rparr>) cid"
  using assms read_images_median [OF assms]
  by (simp add: default_chunking_read_def aggregation_state_new_def Let_def)

theorem median_is_read_as_none_witness:
  "aggregation_method (two_image_source A_MEDIAN) = A_MEDIAN \<and>
   default_chunking_read (two_image_source A_MEDIAN) 0
     = default_chunking_read ((two_image_source A_MEDIAN)\<lparr>aggregation_method := A_NONE\<rparr>) 0 \<and>
   default_chunking_read ((two_image_source A_MEDIAN)\<lparr>aggregation_method := A_NONE\<rparr>) 0
     = Inr \<lparr>size_btyx = (1, 1, 1, 2), buf = [Fin 3, Fin 5]\<rparr>"
proof -
  have h: "aggregation_method (two_image_source A_MEDIAN) = A_MEDIAN"
    by (simp add: two_image_source_def)
  have e: "(two_image_source A_MEDIAN)\<lparr>aggregation_method := A_NONE\<rparr> = two_image_source A_NONE"
    by (simp add: two_image_source_def)
  show ?thesis
    using median_is_read_as_none [OF h, of 0] h
    by (simp add: e two_image_source_none)
qed

text \<open>
  Claim C3 as stated fails: reading chunk 0 of the source with two images under \<open>MEDIAN\<close>
  does not fail; it returns the pixels of the second image.
\<close>

theorem median_is_not_rejected:
  "default_chunking_read (two_image_source A_MEDIAN) 0
     = Inr \<lparr>size_btyx = (1, 1, 1, 2), buf = [Fin 3, Fin 5]\<rparr>"
  by (rule two_image_source_median)

text \<open>
  Claim C4.  For a chunk identifier that is negative or not below the number of chunks, \<open>read\<close>
  of the image-collection source and \<open>read_chunk\<close> of the reduce-over-space operator return
  the empty chunk, of size zero and with no buffer, and raise no error.
\<close>

theorem out_of_range_is_empty:
  assumes "cid < 0 \<or> int (count_chunks src) \<le> cid" "cid < 0 \<or> int (count_chunks rs) \<le> cid"
  shows "default_chunking_read src cid = Inr empty_chunk \<and>
         reduce_space_read_chunk rs cid = Inr empty_chunk \<and>
         size_btyx empty_chunk = (0, 0, 0, 0) \<and> buf empty_chunk = []"
  using assms
  by (auto simp: default_chunking_read_def reduce_space_read_chunk_def empty_chunk_def)

text \<open>
  Claim C9.  When the input cube has one pixel in y and one in x, \<open>read_chunk\<close> of the
  reduce-over-space operator returns, for every valid chunk identifier, what \<open>read_chunk\<close> of
  the input returns for it, whatever the list of reducers and bands is.
\<close>

theorem reduced_input_is_passed_through:
  assumes "0 \<le> cid" "cid < int (count_chunks c)" "size_y (in_cube c) = 1" "size_x (in_cube c) = 1"
  shows "reduce_space_read_chunk c cid = read_chunk (in_cube c) cid"
  using assms by (simp add: reduce_space_read_chunk_def)

theorem reduced_input_is_passed_through_witness:
  "(0::int) \<le> 0 \<and>
   0 < int (count_chunks (reduce_space_cube_create point_cube [(''sum'', ''x''), (''count'', ''x''), (''nonsense'', ''y'')])) \<and>
   size_y (in_cube (reduce_space_cube_create point_cube [(''sum'', ''x''), (''count'', ''x''), (''nonsense'', ''y'')])) = 1 \<and>
   size_x (in_cube (reduce_space_cube_create point_cube [(''sum'', ''x''), (''count'', ''x''), (''nonsense'', ''y'')])) = 1 \<and>
   reduce_space_read_chunk (reduce_space_cube_create point_cube [(''sum'', ''x''), (''count'', ''x''), (''nonsense'', ''y'')]) 0
     = Inr point_chunk \<and>
   sz_b point_chunk = 1 \<and> buf point_chunk = [Fin 7]"
proof -
  let ?c = "reduce_space_cube_create point_cube [(''sum'', ''x''), (''count'', ''x''), (''nonsense'', ''y'')]"
  have h: "(0::int) \<le> 0" "0 < int (count_chunks ?c)" "size_y (in_cube ?c) = 1" "size_x (in_cube ?c) = 1"
    by (simp_all add: reduce_space_cube_create_def point_cube_def geometry_eval Let_def)
  have "read_chunk (in_cube ?c) 0 = Inr point_chunk"
    by (simp add: reduce_space_cube_create_def point_cube_def Let_def)
  with reduced_input_is_passed_through [OF h] h show ?thesis
    by (simp add: point_chunk_def sz_b_def)
qed

theorem out_of_range_is_empty_witness:
  "((1::int) < 0 \<or> int (count_chunks (two_image_source A_MEAN)) \<le> 1) \<and>
   ((1::int) < 0 \<or> int (count_chunks (reduce_space_cube_create grid_cube [(''mean'', ''x'')])) \<le> 1) \<and>
   default_chunking_read (two_image_source A_MEAN) 1 = Inr empty_chunk \<and>
   reduce_space_read_chunk (reduce_space_cube_create grid_cube [(''mean'', ''x'')]) 1 = Inr empty_chunk"
proof -
  have h1: "(1::int) < 0 \<or> int (count_chunks (two_image_source A_MEAN)) \<le> 1"
    by (simp add: two_image_source_def geometry_eval)
  have h2: "(1::int) < 0 \<or> int (count_chunks (reduce_space_cube_create grid_cube [(''mean'', ''x'')])) \<le> 1"
    by (simp add: reduce_space_cube_create_def grid_cube_def geometry_eval Let_def)
  from out_of_range_is_empty [OF h1 h2] h1 h2 show ?thesis by simp
qed


lemma in_cube_read_chunk_update [simp]:
  "in_cube (c\<lparr>read_chunk := f\<rparr>) = in_cube (c::reduce_space_cube)"
  by (cases c) simp

lemma cube_geometry_read_chunk [simp]:
  "count_chunks (c\<lparr>read_chunk := f\<rparr>) = count_chunks c"
  "chunk_size_of (c\<lparr>read_chunk := f\<rparr>) k = chunk_size_of c k"
  by (simp_all add: count_chunks_def count_chunks_t_def count_chunks_y_def count_chunks_x_def
      size_t_def size_y_def size_x_def chunk_size_of_def)

lemma reduce_space_read_chunk_own [simp]:
  "reduce_space_read_chunk (c\<lparr>read_chunk := f\<rparr>) = reduce_space_read_chunk c"
  by (rule ext) (simp add: reduce_space_read_chunk_def Let_def cong: sum.case_cong)

lemma reduce_space_cube_create_read:
  "read_chunk (reduce_space_cube_create inc rbs) = reduce_space_read_chunk (reduce_space_cube_create inc rbs)"
proof -
  define c where "c = \<lparr>st_reference = (st_reference inc)\<lparr>nx := 1, ny := 1\<rparr>,
               chunk_size = (case chunk_size inc of (cst, csy, csx) \<Rightarrow> (cst, 1, 1)),
               bands = map (\<lambda>(name, band). band @ ''_'' @ name) rbs,
               read_chunk = (\<lambda>cid. Inr empty_chunk),
               in_cube = inc, reducer_bands = rbs\<rparr>"
  have "reduce_space_cube_create inc rbs = c\<lparr>read_chunk := reduce_space_read_chunk c\<rparr>"
    by (simp add: reduce_space_cube_create_def c_def Let_def)
  then show ?thesis
    by (simp only: reduce_space_read_chunk_own) simp
qed


lemmas reducer_eval = sz_t_def sz_y_def sz_x_def sz_b_def fin_cell_def out_cell_def in_value_def
  rd_def wr_def isnan_def for_each_value_def init_band_def upt_rec rdc_def of_u32_def

lemma grid_geometry:
  "count_chunks (reduce_space_cube_create grid_cube rbs) = 1"
  "size_y grid_cube = 2" "size_x grid_cube = 2"
  "count_chunks_x grid_cube = 1" "count_chunks_y grid_cube = 1"
  "chunk_size_of (reduce_space_cube_create grid_cube rbs) 0 = (1, 1, 1)"
  by (simp_all add: reduce_space_cube_create_def grid_cube_def geometry_eval Let_def)

lemma grid_init:
  "init_reducers [''x''] [(''mean'', ''x''), (''max'', ''x'')] 0
     \<lparr>size_btyx = (2, 1, 1, 1), buf = [NaN, NaN]\<rparr>
   = Inr (\<lparr>size_btyx = (2, 1, 1, 1), buf = [Fin 0, NaN]\<rparr>,
          [Mean_reducer \<lparr>band_idx_in = 0, band_idx_out = 0, mean_count = [0]\<rparr>,
           Max_reducer \<lparr>band_idx_in = 0, band_idx_out = 1\<rparr>])"
  by (simp add: reducer_init_def get_index_def mean_init_def max_init_def reducer_eval)

lemma grid_combine:
  "combine_reducers
     [Mean_reducer \<lparr>band_idx_in = 0, band_idx_out = 0, mean_count = [0]\<rparr>,
      Max_reducer \<lparr>band_idx_in = 0, band_idx_out = 1\<rparr>]
     \<lparr>size_btyx = (2, 1, 1, 1), buf = [Fin 0, NaN]\<rparr>
     grid_chunk
   = (\<lparr>size_btyx = (2, 1, 1, 1), buf = [Fin 10, Fin 4]\<rparr>,
      [Mean_reducer \<lparr>band_idx_in = 0, band_idx_out = 0, mean_count = [4]\<rparr>,
       Max_reducer \<lparr>band_idx_in = 0, band_idx_out = 1\<rparr>])"
  by (simp add: grid_chunk_def mean_combine_def max_combine_def dmax_def reducer_eval)

lemma grid_finalize:
  "finalize_reducers
     [Mean_reducer \<lparr>band_idx_in = 0, band_idx_out = 0, mean_count = [4]\<rparr>,
      Max_reducer \<lparr>band_idx_in = 0, band_idx_out = 1\<rparr>]
     \<lparr>size_btyx = (2, 1, 1, 1), buf = [Fin 10, Fin 4]\<rparr>
   = \<lparr>size_btyx = (2, 1, 1, 1), buf = [Fin (5 / 2), Fin 4]\<rparr>"
  by (simp add: finalize_reducers_def mean_finalize_def reducer_eval)

lemma grid_reduce:
  "reduce_space_read_chunk (reduce_space_cube_create grid_cube [(''mean'', ''x''), (''max'', ''x'')]) 0
     = Inr \<lparr>size_btyx = (2, 1, 1, 1), buf = [Fin (5 / 2), Fin 4]\<rparr>"
proof -
  let ?c = "reduce_space_cube_create grid_cube [(''mean'', ''x''), (''max'', ''x'')]"
  have c: "in_cube ?c = grid_cube" "reducer_bands ?c = [(''mean'', ''x''), (''max'', ''x'')]"
    by (simp_all add: reduce_space_cube_create_def Let_def)
  have g: "bands grid_cube = [''x'']"
    "read_chunk grid_cube 0 = Inr grid_chunk"
    by (simp_all add: grid_cube_def)
  have range: "\<not> ((0::int) < 0 \<or> 0 \<ge> int (count_chunks ?c))"
    "\<not> (size_y grid_cube = 1 \<and> size_x grid_cube = 1)"
    by (simp_all add: grid_geometry)
  have out0: "new_result_chunk (length [(''mean'', ''x''), (''max'', ''x'')]) (fst (chunk_size_of ?c (nat 0)))
     = \<lparr>size_btyx = (2, 1, 1, 1), buf = [NaN, NaN]\<rparr>"
    by (simp add: new_result_chunk_def grid_geometry replicate_two)
  have ids: "map int [nat 0 * (count_chunks_x grid_cube * count_chunks_y grid_cube)
                      ..< (nat 0 + 1) * (count_chunks_x grid_cube * count_chunks_y grid_cube)] = [0]"
    by (simp add: grid_geometry)
  show ?thesis
    by (simp only: reduce_space_read_chunk_def Let_def c range if_False out0 ids g grid_init
        sum.case prod.case combine_chunks.simps fst_conv snd_conv grid_combine grid_finalize)
qed

section \<open>Properties of the reduce-over-time operator\<close>


lemma reduce_cube_new_reference:
  assumes "known_reducer r"
  shows "\<exists>c. reduce_cube_new impl inc r = Inr c \<and>
             st_reference c = (st_reference inc)\<lparr>dt := t1 (st_reference inc) - t0 (st_reference inc),
                                                 t1 := t0 (st_reference inc)\<rparr> \<and>
             bands c = map (\<lambda>b. if size_t inc > 1 then b @ ''_'' @ r else b) (bands inc)"
  using assms by (simp add: reduce_cube_new_def Let_def nt_def)

text \<open>
  Claim C8.  For a known reducer the constructor of the reduce-over-time operator succeeds, and
  the reference of the new cube has \<open>t1 = t0\<close>, the start of the input, \<open>dt\<close> the span
  \<open>t1 - t0\<close> of the input, and one time step.  Applied to that cube once more, it succeeds again
  and keeps \<open>t0\<close>, \<open>t1\<close>, the one time step and the names of the bands.
\<close>

theorem reduce_has_one_time_step:
  assumes "known_reducer r" "known_reducer r'"
  shows "\<exists>c. reduce_cube_new impl inc r = Inr c \<and>
             t0 (st_reference c) = t0 (st_reference inc) \<and>
             t1 (st_reference c) = t0 (st_reference inc) \<and>
             dt (st_reference c) = t1 (st_reference inc) - t0 (st_reference inc) \<and>
             nt (st_reference c) = 1 \<and>
             (\<exists>c'. reduce_cube_new impl' (cube.truncate c) r' = Inr c' \<and>
                   t0 (st_reference c') = t0 (st_reference c) \<and>
                   t1 (st_reference c') = t1 (st_reference c) \<and>
                   nt (st_reference c') = 1 \<and>
                   bands c' = bands c)"
proof -
  from reduce_cube_new_reference [OF assms(1), of impl inc] obtain c where
    c: "reduce_cube_new impl inc r = Inr c"
    and rc: "st_reference c = (st_reference inc)\<lparr>dt := t1 (st_reference inc) - t0 (st_reference inc),
                                                  t1 := t0 (st_reference inc)\<rparr>"
    by blast
  from reduce_cube_new_reference [OF assms(2), of impl' "cube.truncate c"] obtain c' where
    c': "reduce_cube_new impl' (cube.truncate c) r' = Inr c'"
    and rc': "st_reference c' = (st_reference (cube.truncate c))
                \<lparr>dt := t1 (st_reference (cube.truncate c)) - t0 (st_reference (cube.truncate c)),
                 t1 := t0 (st_reference (cube.truncate c))\<rparr>"
    and bc': "bands c' = map (\<lambda>b. if size_t (cube.truncate c) > 1 then b @ ''_'' @ r' else b)
                          (bands (cube.truncate c))"
    by blast
  have tr: "st_reference (cube.truncate c) = st_reference c" "bands (cube.truncate c) = bands c"
    by (simp_all add: cube.truncate_def)
  have one: "size_t (cube.truncate c) = 1"
    by (simp add: size_t_def tr rc nt_def)
  show ?thesis
    using c c' by (simp add: rc rc' bc' tr one nt_def)
qed

theorem reduce_has_one_time_step_witness:
  "known_reducer ''max'' \<and> known_reducer ''mean'' \<and>
   nt (st_reference ten_days_cube) = 10 \<and>
   (\<exists>c. reduce_cube_new (read_chunk ten_days_cube) ten_days_cube ''max'' = Inr c \<and>
        t0 (st_reference c) = 0 \<and> t1 (st_reference c) = 0 \<and> dt (st_reference c) = 9 \<and>
        nt (st_reference c) = 1 \<and>
        (\<exists>c'. reduce_cube_new (read_chunk ten_days_cube) (cube.truncate c) ''mean'' = Inr c' \<and>
              t0 (st_reference c') = 0 \<and> t1 (st_reference c') = 0 \<and> nt (st_reference c') = 1))"
proof -
  have h: "known_reducer ''max''" "known_reducer ''mean''"
    by (simp_all add: known_reducer_def)
  have g: "t0 (st_reference ten_days_cube) = 0" "t1 (st_reference ten_days_cube) = 9"
    "nt (st_reference ten_days_cube) = 10"
    by (simp_all add: ten_days_cube_def example_reference_def nt_def)
  from reduce_has_one_time_step [OF h, of "read_chunk ten_days_cube" ten_days_cube "read_chunk ten_days_cube"] h g
  show ?thesis by auto
qed

section \<open>Properties of the graph factory\<close>


lemma generator_lookup:
  "cube_generators ''dummy'' = Some generator_dummy"
  "cube_generators ''reduce_time'' = Some generator_reduce_time"
  "cube_generators ''reduce_space'' = Some generator_reduce_space"
  by (simp_all add: cube_generators_def)

lemma dummy_json_members:
  "jcount dummy_json ''cube_type'' = 1"
  "jat dummy_json ''cube_type'' = JString ''dummy''"
  "jat dummy_json ''nbands'' = JNumber 1"
  "jat dummy_json ''fill'' = JNumber 1"
  "jat dummy_json ''chunk_size'' = JArray [JNumber 1, JNumber 2, JNumber 2]"
  "jat dummy_json ''view'' = JObject [(''nx'', JNumber 2), (''ny'', JNumber 2), (''nt'', JNumber 3)]"
  by (simp_all add: dummy_json_def)

lemma create_dummy: "create_from_json exists dummy_json = Inr dummy_node"
  by (subst create_from_json.simps)
     (simp add: dummy_json_members generator_lookup dummy_node_def generator_dummy_def
        bind_e_def req_def get_chunk_size_def)

lemma reducing_json_members:
  "jcount (reducing_json d) ''cube_type'' = 1"
  "jat (reducing_json d) ''cube_type'' = JString d"
  "jat (reducing_json d) ''reducer_bands'' = JArray [JArray [JString ''mean'', JString ''x'']]"
  "jat (reducing_json d) ''in_cube'' = dummy_json"
  by (simp_all add: reducing_json_def)

lemma create_reduce_space:
  "create_from_json exists (reducing_json ''reduce_space'')
     = Inr (Reduce_time_cube dummy_node [(''mean'', ''x'')])"
  by (subst create_from_json.simps)
     (simp add: reducing_json_members generator_lookup generator_reduce_space_def create_dummy
        bind_e_def req_def)

lemma create_reduce_time:
  "create_from_json exists (reducing_json ''reduce_time'')
     = Inr (Reduce_time_cube dummy_node [(''mean'', ''x'')])"
  by (subst create_from_json.simps)
     (simp add: reducing_json_members generator_lookup generator_reduce_time_def create_dummy
        bind_e_def req_def)

text \<open>
  Claim C2.  The code does not build the reduce-over-space operator: for a node with the
  discriminator \<open>reduce_space\<close> the factory calls \<open>reduce_time_cube::create\<close>, so the
  result is the reduce-over-time cube that the same node with the discriminator
  \<open>reduce_time\<close> gives.
\<close>

theorem reduce_space_builds_reduce_time:
  "create_from_json exists (reducing_json ''reduce_space'')
     = Inr (Reduce_time_cube dummy_node [(''mean'', ''x'')]) \<and>
   create_from_json exists (reducing_json ''reduce_space'')
     \<noteq> Inr (Reduce_space_cube dummy_node [(''mean'', ''x'')]) \<and>
   create_from_json exists (reducing_json ''reduce_space'')
     = create_from_json exists (reducing_json ''reduce_time'')"
  by (simp add: create_reduce_space create_reduce_time)


lemma generators_never_build_reduce_space:
  assumes "cube_generators t = Some g"
  shows "g exists sub j \<noteq> Inr (Reduce_space_cube c rb)"
proof -
  have each: "generator_reduce exists sub j \<noteq> Inr (Reduce_space_cube c rb)"
    "generator_reduce_time exists sub j \<noteq> Inr (Reduce_space_cube c rb)"
    "generator_reduce_space exists sub j \<noteq> Inr (Reduce_space_cube c rb)"
    "generator_window_time exists sub j \<noteq> Inr (Reduce_space_cube c rb)"
    "generator_select_bands exists sub j \<noteq> Inr (Reduce_space_cube c rb)"
    "generator_filter_pixel exists sub j \<noteq> Inr (Reduce_space_cube c rb)"
    "generator_apply_pixel exists sub j \<noteq> Inr (Reduce_space_cube c rb)"
    "generator_join_bands exists sub j \<noteq> Inr (Reduce_space_cube c rb)"
    "generator_stream exists sub j \<noteq> Inr (Reduce_space_cube c rb)"
    "generator_image_collection exists sub j \<noteq> Inr (Reduce_space_cube c rb)"
    "generator_dummy exists sub j \<noteq> Inr (Reduce_space_cube c rb)"
    by (simp_all add: generator_reduce_def generator_reduce_time_def generator_reduce_space_def
      generator_window_time_def generator_select_bands_def generator_filter_pixel_def
      generator_apply_pixel_def generator_join_bands_def generator_stream_def
      generator_image_collection_def generator_dummy_def bind_e_def
      split: sum.splits)
  from assms have "(t, g) \<in> set [(''reduce'', generator_reduce),
             (''reduce_time'', generator_reduce_time),
             (''reduce_space'', generator_reduce_space),
             (''window_time'', generator_window_time),
             (''select_bands'', generator_select_bands),
             (''filter_pixel'', generator_filter_pixel),
             (''apply_pixel'', generator_apply_pixel),
             (''join_bands'', generator_join_bands),
             (''stream'', generator_stream),
             (''image_collection'', generator_image_collection),
             (''dummy'', generator_dummy)]"
    unfolding cube_generators_def by (rule map_of_SomeD)
  then have "g = generator_reduce \<or> g = generator_reduce_time \<or> g = generator_reduce_space \<or>
      g = generator_window_time \<or> g = generator_select_bands \<or> g = generator_filter_pixel \<or>
      g = generator_apply_pixel \<or> g = generator_join_bands \<or> g = generator_stream \<or>
      g = generator_image_collection \<or> g = generator_dummy"
    by (simp only: set_simps insert_iff empty_iff prod.inject) blast
  with each show ?thesis by blast
qed

lemma factory_never_builds_reduce_space:
  "create_from_json exists j \<noteq> Inr (Reduce_space_cube c rb)"
proof (cases "jcount j ''cube_type'' = 0")
  case True
  then show ?thesis by (subst create_from_json.simps) simp
next
  case False
  show ?thesis
  proof (cases "get_string (jat j ''cube_type'')")
    case None
    with False show ?thesis by (subst create_from_json.simps) simp
  next
    case (Some t)
    show ?thesis
    proof (cases "cube_generators t")
      case None
      with False Some show ?thesis by (subst create_from_json.simps) simp
    next
      case (Some g)
      with False \<open>get_string (jat j ''cube_type'') = Some t\<close>
        generators_never_build_reduce_space [OF Some]
      show ?thesis by (subst create_from_json.simps) simp
    qed
  qed
qed

section \<open>Properties of the point queries\<close>


lemma grid_query_geometry:
  "dx (st_reference grid_cube) = Fin 1" "dy (st_reference grid_cube) = Fin 1"
  "left (st_reference grid_cube) = Fin 0" "bottom (st_reference grid_cube) = Fin 0"
  "t0 (st_reference grid_cube) = 0" "dt (st_reference grid_cube) = 1"
  "srs (st_reference grid_cube) = ''EPSG:4326''"
  "count_chunks grid_cube = 1" "chunk_size grid_cube = (1, 2, 2)" "bands grid_cube = [''x'']"
  "read_chunk grid_cube 0 = Inr grid_chunk"
  by (simp_all add: grid_cube_def example_reference_def dx_def dy_def dsub_def
      count_chunks_def count_chunks_t_def count_chunks_y_def
      count_chunks_x_def ceil_div_def size_t_def size_y_def size_x_def nt_def)

lemma floor_examples:
  "int_of_floor (Fin (1 / 2)) = 0" "int_of_floor (Fin (3 / 2)) = 1" "int_of_floor (Fin 0) = 0"
  by (simp_all add: int_of_floor_def)

lemma read_point_example:
  "read_point grid_cube grid_chunk [Fin (1 / 2)] [Fin (3 / 2)] [Fin 0] 0 [[NaN]] = [[Fin 1]]"
  by (simp add: read_point_def grid_query_geometry rd_def floor_examples grid_chunk_def
      sz_t_def sz_y_def sz_x_def Let_def)

lemma read_chunks_example:
  "read_chunks grid_cube [Fin (1 / 2)] [Fin (3 / 2)] [Fin 0] [(0, [0])] ([[NaN]], [])
     = (Inr [[Fin 1]], [0])"
proof -
  have "\<not> chunk_empty grid_chunk"
    by (simp add: grid_chunk_def chunk_empty_def sz_b_def sz_t_def sz_y_def sz_x_def)
  then show ?thesis
    by (simp add: grid_query_geometry read_point_example)
qed

text \<open>A call that passes the three checks reads the chunk of its point: the point in the
  upper left pixel of \<open>grid_cube\<close> gets the value 1, and chunk 0 has been read.\<close>

lemma query_example:
  "query_points plain_env (Some grid_cube) [Fin (1 / 2)] [Fin (3 / 2)] [''2018-01-01''] ''EPSG:4326''
     = (Inr [[Fin 1]], [0])"
proof -
  have env: "from_string plain_env = (\<lambda>u s. 0)" "find_chunk_that_contains plain_env = (\<lambda>c p. 0)"
    by (simp_all add: plain_env_def)
  show ?thesis
    unfolding query_points_def Let_def
    by (simp add: grid_query_geometry env rd_def tdiv_def dsub_def read_chunks_example
        del: read_chunks.simps)
qed

text \<open>
  Claim C10.  When the coordinate vectors differ in length, or are empty, or the cube pointer is
  null, \<open>query_points\<close> throws, and it has read no chunk: the list of the chunk identifiers
  passed to \<open>read_chunk\<close> is empty.
\<close>

theorem query_points_guards:
  assumes "length x \<noteq> length y \<or> length y \<noteq> length t \<or> x = [] \<or> cube = None"
  shows "\<exists>msg. query_points env cube x y t srs' = (Inl (Thrown msg), [])"
proof (cases "length x \<noteq> length y \<or> length y \<noteq> length t")
  case True
  then show ?thesis by (simp add: query_points_def)
next
  case False
  note lengths = this
  show ?thesis
  proof (cases "x = []")
    case True
    with lengths show ?thesis by (simp add: query_points_def)
  next
    case False
    with lengths assms have "cube = None" by simp
    with lengths False show ?thesis by (simp add: query_points_def)
  qed
qed

theorem query_points_guards_witness:
  "length [Fin 1] \<noteq> length [Fin 1, Fin 2] \<and>
   (\<exists>msg. query_points plain_env (Some grid_cube) [Fin 1] [Fin 1, Fin 2] [''2018'', ''2019''] ''EPSG:4326''
      = (Inl (Thrown msg), [])) \<and>
   (\<exists>msg. query_points plain_env (Some grid_cube) [] [] [] ''EPSG:4326'' = (Inl (Thrown msg), [])) \<and>
   (\<exists>msg. query_points plain_env None [Fin 1] [Fin 1] [''2018''] ''EPSG:4326'' = (Inl (Thrown msg), []))"
proof -
  have a: "\<exists>msg. query_points plain_env (Some grid_cube) [Fin 1] [Fin 1, Fin 2] [''2018'', ''2019''] ''EPSG:4326''
      = (Inl (Thrown msg), [])"
    using query_points_guards [of "[Fin 1]" "[Fin 1, Fin 2]" "[''2018'', ''2019'']" "Some grid_cube"
        plain_env "''EPSG:4326''"]
    by simp
  have b: "\<exists>msg. query_points plain_env (Some grid_cube) [] [] [] ''EPSG:4326'' = (Inl (Thrown msg), [])"
    using query_points_guards [of "[]" "[]" "[]" "Some grid_cube" plain_env "''EPSG:4326''"]
    by simp
  have c: "\<exists>msg. query_points plain_env None [Fin 1] [Fin 1] [''2018''] ''EPSG:4326'' = (Inl (Thrown msg), [])"
    using query_points_guards [of "[Fin 1]" "[Fin 1]" "[''2018'']" None plain_env "''EPSG:4326''"]
    by simp
  from a b c show ?thesis by simp
qed

section \<open>The runs of one reducer and the reduce-over-space operator\<close>


text \<open>
  The runs of a single reducer are what \<open>read_chunk\<close> computes for a list with one reducer,
  when every \<open>read_chunk\<close> of the input returns a chunk.
\<close>

lemma combine_chunks_single:
  assumes "map rc ids = map Inr chunks"
  shows "combine_chunks rc ids (a, [r])
           = Inr (case fold (\<lambda>x (a, r). reducer_combine r a x) chunks (a, r) of (a', r') \<Rightarrow> (a', [r']))"
  using assms
proof (induction ids arbitrary: chunks a r)
  case Nil
  then show ?case by simp
next
  case (Cons i ids)
  from Cons.prems obtain x xs where chunks: "chunks = x # xs" and x: "rc i = Inr x"
    and xs: "map rc ids = map Inr xs"
    by (cases chunks) auto
  obtain a' r' where step: "reducer_combine r a x = (a', r')" by (cases "reducer_combine r a x")
  from Cons.IH [OF xs, of a' r'] show ?case
    by (simp add: chunks x step)
qed

lemma read_chunk_single:
  assumes "0 \<le> cid" "cid < int (count_chunks c)"
      and "\<not> (size_y (in_cube c) = 1 \<and> size_x (in_cube c) = 1)"
      and "reducer_bands c = [(name, band)]"
      and "map (read_chunk (in_cube c))
             (map int [nat cid * (count_chunks_x (in_cube c) * count_chunks_y (in_cube c))
                       ..< (nat cid + 1) * (count_chunks_x (in_cube c) * count_chunks_y (in_cube c))])
           = map Inr chunks"
      and "reducer_init name (new_result_chunk 1 (fst (chunk_size_of c (nat cid))))
             (get_index (bands (in_cube c)) band) 0 = Inr s0"
  shows "reduce_space_read_chunk c cid
           = Inr (case fold (\<lambda>x (a, r). reducer_combine r a x) chunks s0 of
                    (a1, r1) \<Rightarrow> reducer_finalize r1 a1)"
proof -
  define out where "out = new_result_chunk (length [(name, band)]) (fst (chunk_size_of c (nat cid)))"
  have out: "new_result_chunk 1 (fst (chunk_size_of c (nat cid))) = out"
    by (simp add: out_def)
  obtain a0 r0 where s0: "s0 = (a0, r0)" by (cases s0)
  obtain a1 r1 where f: "fold (\<lambda>x (a, r). reducer_combine r a x) chunks (a0, r0) = (a1, r1)"
    by (cases "fold (\<lambda>x (a, r). reducer_combine r a x) chunks (a0, r0)")
  from assms(6) have "reducer_init name out (get_index (bands (in_cube c)) band) 0 = Inr (a0, r0)"
    by (simp only: out s0)
  then have init: "init_reducers (bands (in_cube c)) [(name, band)] 0 out = Inr (a0, [r0])"
    by simp
  have comb: "combine_chunks (read_chunk (in_cube c))
      (map int [nat cid * (count_chunks_x (in_cube c) * count_chunks_y (in_cube c))
                ..< (nat cid + 1) * (count_chunks_x (in_cube c) * count_chunks_y (in_cube c))])
      (a0, [r0]) = Inr (a1, [r1])"
    by (subst combine_chunks_single [OF assms(5)]) (simp add: f)
  have fin: "finalize_reducers [r1] a1 = reducer_finalize r1 a1"
    by (simp add: finalize_reducers_def)
  have range: "\<not> (cid < 0 \<or> cid \<ge> int (count_chunks c))"
    using assms(1,2) by simp
  show ?thesis
    by (simp only: reduce_space_read_chunk_def Let_def assms(4) out_def [symmetric] init comb
        fin range assms(3) if_False sum.case prod.case s0 f)
qed

lemma fold_combine_mean:
  "fold (\<lambda>x (a, r). reducer_combine r a x) chunks (a, Mean_reducer r)
     = map_prod id Mean_reducer (fold (\<lambda>b (a, r). mean_combine r a b) chunks (a, r))"
proof (induction chunks arbitrary: a r)
  case Nil
  then show ?case by simp
next
  case (Cons x xs)
  obtain a' r' where "mean_combine r a x = (a', r')" by (cases "mean_combine r a x")
  with Cons.IH [of a' r'] show ?case by simp
qed

lemma fold_combine_median:
  "fold (\<lambda>x (a, r). reducer_combine r a x) chunks (a, Median_reducer r)
     = map_prod id Median_reducer (fold (\<lambda>b (a, r). median_combine r a b) chunks (a, r))"
proof (induction chunks arbitrary: a r)
  case Nil
  then show ?case by simp
next
  case (Cons x xs)
  obtain a' r' where "median_combine r a x = (a', r')" by (cases "median_combine r a x")
  with Cons.IH [of a' r'] show ?case by simp
qed

lemma fold_combine_var:
  "fold (\<lambda>x (a, r). reducer_combine r a x) chunks (a, Var_reducer r)
     = map_prod id Var_reducer (fold (\<lambda>b (a, r). var_combine r a b) chunks (a, r))"
proof (induction chunks arbitrary: a r)
  case Nil
  then show ?case by simp
next
  case (Cons x xs)
  obtain a' r' where "var_combine r a x = (a', r')" by (cases "var_combine r a x")
  with Cons.IH [of a' r'] show ?case by simp
qed

lemma fold_combine_sd:
  "fold (\<lambda>x (a, r). reducer_combine r a x) chunks (a, Sd_reducer r)
     = map_prod id Sd_reducer (fold (\<lambda>b (a, r). var_combine r a b) chunks (a, r))"
proof (induction chunks arbitrary: a r)
  case Nil
  then show ?case by simp
next
  case (Cons x xs)
  obtain a' r' where "var_combine r a x = (a', r')" by (cases "var_combine r a x")
  with Cons.IH [of a' r'] show ?case by simp
qed

lemma fold_combine_sum:
  "fold (\<lambda>x (a, r). reducer_combine r a x) chunks (a, Sum_reducer r)
     = (fold (\<lambda>b a. sum_combine r a b) chunks a, Sum_reducer r)"
  by (induction chunks arbitrary: a) simp_all

lemma fold_combine_count:
  "fold (\<lambda>x (a, r). reducer_combine r a x) chunks (a, Count_reducer r)
     = (fold (\<lambda>b a. count_combine r a b) chunks a, Count_reducer r)"
  by (induction chunks arbitrary: a) simp_all

lemma single_reducer_runs:
  "(case fold (\<lambda>x (a, r). reducer_combine r a x) chunks (map_prod id Mean_reducer (mean_init a bi bo)) of
      (a1, r1) \<Rightarrow> reducer_finalize r1 a1) = mean_run a bi bo chunks"
  "(case fold (\<lambda>x (a, r). reducer_combine r a x) chunks (map_prod id Median_reducer (median_init a bi bo)) of
      (a1, r1) \<Rightarrow> reducer_finalize r1 a1) = median_run a bi bo chunks"
  "(case fold (\<lambda>x (a, r). reducer_combine r a x) chunks (map_prod id Var_reducer (var_init a bi bo)) of
      (a1, r1) \<Rightarrow> reducer_finalize r1 a1) = var_run a bi bo chunks"
  "(case fold (\<lambda>x (a, r). reducer_combine r a x) chunks (map_prod id Sd_reducer (var_init a bi bo)) of
      (a1, r1) \<Rightarrow> reducer_finalize r1 a1) = sd_run a bi bo chunks"
  "(case fold (\<lambda>x (a, r). reducer_combine r a x) chunks (map_prod id Sum_reducer (sum_init a bi bo)) of
      (a1, r1) \<Rightarrow> reducer_finalize r1 a1) = sum_run a bi bo chunks"
  "(case fold (\<lambda>x (a, r). reducer_combine r a x) chunks (map_prod id Count_reducer (count_init a bi bo)) of
      (a1, r1) \<Rightarrow> reducer_finalize r1 a1) = count_run a bi bo chunks"
proof -
  show "(case fold (\<lambda>x (a, r). reducer_combine r a x) chunks (map_prod id Mean_reducer (mean_init a bi bo)) of
      (a1, r1) \<Rightarrow> reducer_finalize r1 a1) = mean_run a bi bo chunks"
    by (cases "mean_init a bi bo")
       (simp add: fold_combine_mean mean_run_def split: prod.splits)
  show "(case fold (\<lambda>x (a, r). reducer_combine r a x) chunks (map_prod id Median_reducer (median_init a bi bo)) of
      (a1, r1) \<Rightarrow> reducer_finalize r1 a1) = median_run a bi bo chunks"
    by (cases "median_init a bi bo")
       (simp add: fold_combine_median median_run_def split: prod.splits)
  show "(case fold (\<lambda>x (a, r). reducer_combine r a x) chunks (map_prod id Var_reducer (var_init a bi bo)) of
      (a1, r1) \<Rightarrow> reducer_finalize r1 a1) = var_run a bi bo chunks"
    by (cases "var_init a bi bo")
       (simp add: fold_combine_var var_run_def split: prod.splits)
  show "(case fold (\<lambda>x (a, r). reducer_combine r a x) chunks (map_prod id Sd_reducer (var_init a bi bo)) of
      (a1, r1) \<Rightarrow> reducer_finalize r1 a1) = sd_run a bi bo chunks"
    by (cases "var_init a bi bo")
       (simp add: fold_combine_sd sd_run_def split: prod.splits)
  show "(case fold (\<lambda>x (a, r). reducer_combine r a x) chunks (map_prod id Sum_reducer (sum_init a bi bo)) of
      (a1, r1) \<Rightarrow> reducer_finalize r1 a1) = sum_run a bi bo chunks"
    by (cases "sum_init a bi bo")
       (simp add: fold_combine_sum sum_run_def)
  show "(case fold (\<lambda>x (a, r). reducer_combine r a x) chunks (map_prod id Count_reducer (count_init a bi bo)) of
      (a1, r1) \<Rightarrow> reducer_finalize r1 a1) = count_run a bi bo chunks"
    by (cases "count_init a bi bo")
       (simp add: fold_combine_count count_run_def)
qed

lemma read_chunk_single_run:
  assumes "0 \<le> cid" "cid < int (count_chunks c)"
      and "\<not> (size_y (in_cube c) = 1 \<and> size_x (in_cube c) = 1)"
      and "reducer_bands c = [(name, band)]"
      and "map (read_chunk (in_cube c))
             (map int [nat cid * (count_chunks_x (in_cube c) * count_chunks_y (in_cube c))
                       ..< (nat cid + 1) * (count_chunks_x (in_cube c) * count_chunks_y (in_cube c))])
           = map Inr chunks"
      and "out = new_result_chunk 1 (fst (chunk_size_of c (nat cid)))"
      and "bi = get_index (bands (in_cube c)) band"
  shows "name = ''mean'' \<longrightarrow> reduce_space_read_chunk c cid = Inr (mean_run out bi 0 chunks)"
    and "name = ''median'' \<longrightarrow> reduce_space_read_chunk c cid = Inr (median_run out bi 0 chunks)"
    and "name = ''sum'' \<longrightarrow> reduce_space_read_chunk c cid = Inr (sum_run out bi 0 chunks)"
    and "name = ''count'' \<longrightarrow> reduce_space_read_chunk c cid = Inr (count_run out bi 0 chunks)"
    and "name = ''var'' \<longrightarrow> reduce_space_read_chunk c cid = Inr (var_run out bi 0 chunks)"
    and "name = ''sd'' \<longrightarrow> reduce_space_read_chunk c cid = Inr (sd_run out bi 0 chunks)"
  using read_chunk_single [OF assms(1-5)] assms(6,7)
  by (simp_all add: reducer_init_def single_reducer_runs)

end
